theory Spec2Isabelle
  imports Complex_Main "HOL-Library.Word" "HOL-Library.Signed_Division"
begin

unbundle bit_operations_syntax

section \<open>C arithmetic used by desktop\_cube.c\<close>

text \<open>
  The program is modelled for an LP64 target (Linux, x86-64): \<open>int\<close> and \<open>GLuint\<close> have
  32 bits, \<open>short\<close> has 16, \<open>long\<close>, \<open>time_t\<close>, pointers and X resource identifiers
  have 64. Signed arithmetic wraps in two's complement, conversions to a narrower signed
  type reduce modulo the width, \<open>/\<close> on integers truncates towards zero (\<open>sdiv\<close>).
\<close>

type_synonym c_short = "16 word"
type_synonym c_int = "32 word"
type_synonym c_uint = "32 word"
type_synonym ptr = "64 word"
type_synonym xid = "64 word"

subsection \<open>Floating point\<close>

text \<open>
  A \<open>float\<close> or \<open>double\<close> value is a rational number, an infinity or a NaN. The sign
  of zero is not represented. An operation computes the exact rational result and rounds
  it to the format: to the nearest value with \<open>p\<close> significant bits whose exponent lies
  between \<open>emin\<close> and \<open>emax\<close>, ties to the even significand, overflow to an infinity.
\<close>

datatype ieee = Finite rat | PlusInf | MinusInf | NaN

definition round_half_even :: "rat \<Rightarrow> int" where
  "round_half_even x =
     (let f = \<lfloor>x\<rfloor>; d = x - of_int f
      in if d < 1 / 2 then f else if 1 / 2 < d then f + 1 else if even f then f else f + 1)"

text \<open>The largest exponent \<open>e\<close> in \<open>emin .. emin + k\<close> with \<open>2 powi e \<le> x\<close>, else \<open>emin\<close>.\<close>

fun exp_search :: "int \<Rightarrow> nat \<Rightarrow> rat \<Rightarrow> int" where
  "exp_search emin 0 x = emin"
| "exp_search emin (Suc k) x =
     (if 2 powi (emin + int (Suc k)) \<le> x then emin + int (Suc k) else exp_search emin k x)"

definition ieee_round :: "nat \<Rightarrow> int \<Rightarrow> int \<Rightarrow> rat \<Rightarrow> ieee" where
  "ieee_round p emin emax x =
     (let e = exp_search emin (nat (emax - emin)) \<bar>x\<bar>;
          q = 2 powi (e - (int p - 1));
          r = of_int (round_half_even (x / q)) * q
      in if 2 powi (emax + 1) \<le> \<bar>r\<bar> then (if 0 < r then PlusInf else MinusInf) else Finite r)"

definition f32_round :: "rat \<Rightarrow> ieee" where
  "f32_round = ieee_round 24 (- 126) 127"

definition f64_round :: "rat \<Rightarrow> ieee" where
  "f64_round = ieee_round 53 (- 1022) 1023"

text \<open>Conversion of a \<open>double\<close> to \<open>float\<close> (the assignment of \<open>fmod\<close>'s result).\<close>

fun f32_of_double :: "ieee \<Rightarrow> ieee" where
  "f32_of_double (Finite x) = f32_round x"
| "f32_of_double v = v"

text \<open>Conversion of a \<open>short\<close> to \<open>GLfloat\<close>.\<close>

definition f32_of_short :: "c_short \<Rightarrow> ieee" where
  "f32_of_short v = f32_round (of_int (sint v))"

fun f32_add :: "ieee \<Rightarrow> ieee \<Rightarrow> ieee" where
  "f32_add (Finite x) (Finite y) = f32_round (x + y)"
| "f32_add NaN _ = NaN"
| "f32_add _ NaN = NaN"
| "f32_add PlusInf MinusInf = NaN"
| "f32_add MinusInf PlusInf = NaN"
| "f32_add PlusInf _ = PlusInf"
| "f32_add MinusInf _ = MinusInf"
| "f32_add _ PlusInf = PlusInf"
| "f32_add _ MinusInf = MinusInf"

text \<open>
  Single-precision division. A zero divisor is the positive zero: the only divisor of
  the program is a converted \<open>short\<close>.
\<close>

fun f32_div :: "ieee \<Rightarrow> ieee \<Rightarrow> ieee" where
  "f32_div (Finite x) (Finite y) =
     (if y = 0 then (if x = 0 then NaN else if 0 < x then PlusInf else MinusInf)
      else f32_round (x / y))"
| "f32_div NaN _ = NaN"
| "f32_div _ NaN = NaN"
| "f32_div (Finite x) _ = Finite 0"
| "f32_div PlusInf (Finite y) = (if 0 \<le> y then PlusInf else MinusInf)"
| "f32_div MinusInf (Finite y) = (if 0 \<le> y then MinusInf else PlusInf)"
| "f32_div _ _ = NaN"

text \<open>
  \<open>fmod\<close> of \<open>math.h\<close>: the exact remainder \<open>x - n * y\<close> with \<open>n\<close> the quotient
  truncated towards zero; it has the sign of \<open>x\<close> and needs no rounding.
\<close>

definition trunc_rat :: "rat \<Rightarrow> int" where
  "trunc_rat q = (if 0 \<le> q then \<lfloor>q\<rfloor> else \<lceil>q\<rceil>)"

fun fmod :: "ieee \<Rightarrow> ieee \<Rightarrow> ieee" where
  "fmod (Finite x) (Finite y) =
     (if y = 0 then NaN else Finite (x - of_int (trunc_rat (x / y)) * y))"
| "fmod (Finite x) PlusInf = Finite x"
| "fmod (Finite x) MinusInf = Finite x"
| "fmod _ _ = NaN"

section \<open>Data model\<close>

record XineramaScreenInfo =
  screen_number :: c_int
  x_org :: c_short
  y_org :: c_short
  width :: c_short
  height :: c_short

record XVisualInfo =
  visual :: ptr
  depth :: c_int

text \<open>
  \<open>AppData\<close>: a pointer to an object owned by Xlib is \<open>None\<close> when it is \<open>NULL\<close> and
  holds the object it points to otherwise; the other handles are the integers they are
  in C, with \<open>0\<close> for "not acquired".
\<close>

record AppData =
  display :: ptr
  window :: xid
  screen_info :: "XineramaScreenInfo list option"
  visual_info :: "XVisualInfo option"
  glx_context :: ptr
  color_map :: xid
  vertex_buffer :: c_uint
  index_buffer :: c_uint
  color_buffer :: c_uint
  num_screens :: c_int

text \<open>\<open>AppData app_data = {0}\<close>\<close>

definition zero_app_data :: AppData where
  "zero_app_data =
     \<lparr>display = 0, window = 0, screen_info = None, visual_info = None, glx_context = 0,
      color_map = 0, vertex_buffer = 0, index_buffer = 0, color_buffer = 0, num_screens = 0\<rparr>"

section \<open>The outside world: calls, signals, clock\<close>

text \<open>The constants of the OpenGL headers the program names.\<close>

datatype gl_const =
    GL_ARRAY_BUFFER | GL_ELEMENT_ARRAY_BUFFER | GL_STATIC_DRAW | GL_FLOAT
  | GL_DEPTH_TEST | GL_MULTISAMPLE | GL_VERTEX_ARRAY | GL_COLOR_ARRAY
  | GL_COLOR_BUFFER_BIT | GL_DEPTH_BUFFER_BIT | GL_PROJECTION | GL_MODELVIEW
  | GL_QUADS | GL_UNSIGNED_BYTE

text \<open>The three global arrays uploaded to the GPU.\<close>

datatype cube_data = Vertices | Indices | Colors

datatype gl_call =
    GlewInit
  | GlGenBuffers int
  | GlBindBuffer gl_const c_uint
  | GlBufferData gl_const cube_data gl_const
  | GlVertexPointer int gl_const int
  | GlColorPointer int gl_const int
  | GlEnable gl_const
  | GlEnableClientState gl_const
  | GlClearColor_NORD0
  | GlDeleteBuffers int c_uint
  | GlClear "gl_const list"
  | GlViewport c_int c_int c_int c_int
  | GlMatrixMode gl_const
  | GlLoadIdentity
  | GluPerspective ieee ieee ieee ieee
  | GluLookAt "ieee list"
  | GlRotatef ieee ieee ieee ieee
  | GlDrawElements gl_const int gl_const

datatype xfree_arg = Visual_info XVisualInfo | Screen_info "XineramaScreenInfo list"

datatype x_call =
    XOpenDisplay
  | XineramaQueryScreens ptr
  | GlXChooseVisual ptr int
  | XCreateColormap ptr xid ptr
  | XCreateWindow ptr xid c_int c_int c_uint c_uint c_uint c_int ptr xid
  | XStoreName ptr xid string
  | GlXCreateContext ptr XVisualInfo
  | XInternAtom ptr string
  | XChangeProperty ptr xid xid xid
  | XMapWindow ptr xid
  | GlXMakeCurrent ptr xid ptr
  | GlXSwapBuffers ptr xid
  | XFlush ptr
  | XFreeColormap ptr xid
  | XDestroyWindow ptr xid
  | GlXDestroyContext ptr ptr
  | XFree xfree_arg
  | XCloseDisplay ptr

text \<open>
  \<open>Signal n\<close> is the call \<open>signal(n, signal_handler)\<close>. The color macros of
  \<open>nord.h\<close> are not modelled: the calls that take them are recorded without the
  values (\<open>GlClearColor_NORD0\<close>, the array \<open>Colors\<close>).
\<close>

datatype libc_call =
    Signal c_int
  | Fprintf_stderr string
  | Clock_gettime
  | Usleep c_uint
  | Exit c_int

datatype call = X x_call | GL gl_call | Libc libc_call

text \<open>
  What an execution leaves behind, in order: the calls to the outside, the deliveries of
  a signal to \<open>signal_handler\<close>, and the reads of the flag \<open>terminate\<close> by the loop test.
\<close>

datatype event = Call call | Delivered c_int | Test_terminate c_int

record timespec =
  tv_sec :: "64 word"
  tv_nsec :: "64 word"

text \<open>
  The environment of one execution. The \<open>r_\<close> fields are what the display system and
  the graphics library answer to \<open>initialize\<close>; \<open>r_screens\<close> is the array returned by
  \<open>XineramaQueryScreens\<close> with the count it stores through its second argument.
  \<open>sched t\<close> is the list of signals delivered to the handler just before step \<open>t\<close> of
  the program (a step is a call or a loop test), \<open>clock t\<close> is the time
  \<open>clock_gettime\<close> reads when it is step \<open>t\<close>.
\<close>

record env =
  r_display :: ptr
  r_screens :: "(XineramaScreenInfo list \<times> c_int) option"
  r_root :: xid
  r_visual :: "XVisualInfo option"
  r_colormap :: xid
  r_window :: xid
  r_context :: ptr
  r_atom_type :: xid
  r_atom_desktop :: xid
  r_glew :: c_uint
  r_vertex_buffer :: c_uint
  r_index_buffer :: c_uint
  r_color_buffer :: c_uint
  sched :: "nat \<Rightarrow> c_int list"
  clock :: "nat \<Rightarrow> timespec"

text \<open>
  The program state: the \<open>AppData\<close> of \<open>main\<close>, the three global variables, and the
  events so far with the number of steps taken.
\<close>

record pstate =
  app_data :: AppData
  terminate :: c_int
  rotation_angle_x :: ieee
  rotation_angle_y :: ieee
  events :: "event list"
  nsteps :: nat

text \<open>The values of \<open>signal.h\<close> on Linux; no result depends on them.\<close>

definition SIGINT :: c_int where
  "SIGINT = 2"

definition SIGTERM :: c_int where
  "SIGTERM = 15"

section \<open>The program\<close>

definition signal_handler :: "c_int \<Rightarrow> pstate \<Rightarrow> pstate" where
  "signal_handler signum s =
     (if signum = SIGINT \<or> signum = SIGTERM then s\<lparr>terminate := 1\<rparr> else s)"

text \<open>Delivery of the signals scheduled before the next step, each run to completion.\<close>

definition deliver_one :: "pstate \<Rightarrow> c_int \<Rightarrow> pstate" where
  "deliver_one s signum =
     (let s1 = signal_handler signum s in s1\<lparr>events := events s1 @ [Delivered signum]\<rparr>)"

definition deliver :: "env \<Rightarrow> pstate \<Rightarrow> pstate" where
  "deliver e s = foldl deliver_one s (sched e (nsteps s))"

text \<open>One call to the outside: a step of the program.\<close>

definition emit :: "env \<Rightarrow> call \<Rightarrow> pstate \<Rightarrow> pstate" where
  "emit e c s =
     (let s1 = deliver e s in s1\<lparr>events := events s1 @ [Call c], nsteps := nsteps s1 + 1\<rparr>)"

definition calls_of :: "event list \<Rightarrow> call list" where
  "calls_of evs = concat (map (\<lambda>ev. case ev of Call c \<Rightarrow> [c] | _ \<Rightarrow> []) evs)"

subsection \<open>cleanup\<close>

text \<open>
  One line of \<open>cleanup\<close>: \<open>f\<close> reads the handle in the \<open>AppData\<close> and gives the
  release call when the handle is set.
\<close>

definition release :: "env \<Rightarrow> (AppData \<Rightarrow> call option) \<Rightarrow> pstate \<Rightarrow> pstate" where
  "release e f s = (case f (app_data s) of Some c \<Rightarrow> emit e c s | None \<Rightarrow> s)"

definition cleanup :: "env \<Rightarrow> pstate \<Rightarrow> pstate" where
  "cleanup e s0 =
     (let s1 = release e (\<lambda>a. if vertex_buffer a \<noteq> 0
                              then Some (GL (GlDeleteBuffers 1 (vertex_buffer a))) else None) s0;
          s2 = release e (\<lambda>a. if index_buffer a \<noteq> 0
                              then Some (GL (GlDeleteBuffers 1 (index_buffer a))) else None) s1;
          s3 = release e (\<lambda>a. if color_buffer a \<noteq> 0
                              then Some (GL (GlDeleteBuffers 1 (color_buffer a))) else None) s2;
          s4 = release e (\<lambda>a. if color_map a \<noteq> 0
                              then Some (X (XFreeColormap (display a) (color_map a))) else None) s3;
          s5 = release e (\<lambda>a. if window a \<noteq> 0
                              then Some (X (XDestroyWindow (display a) (window a))) else None) s4;
          s6 = release e (\<lambda>a. if glx_context a \<noteq> 0
                              then Some (X (GlXDestroyContext (display a) (glx_context a)))
                              else None) s5;
          s7 = release e (\<lambda>a. map_option (\<lambda>v. X (XFree (Visual_info v))) (visual_info a)) s6;
          s8 = release e (\<lambda>a. map_option (\<lambda>i. X (XFree (Screen_info i))) (screen_info a)) s7
      in release e (\<lambda>a. if display a \<noteq> 0 then Some (X (XCloseDisplay (display a))) else None) s8)"

subsection \<open>initialize\<close>

definition emits :: "env \<Rightarrow> call list \<Rightarrow> pstate \<Rightarrow> pstate" where
  "emits e cs s = foldl (\<lambda>s c. emit e c s) s cs"

definition newline :: string where
  "newline = [CHR 0x0A]"

text \<open>\<open>GLEW_OK\<close> of \<open>GL/glew.h\<close>.\<close>

definition GLEW_OK :: c_uint where
  "GLEW_OK = 0"

text \<open>
  \<open>app_data->screen_info[i]\<close>. Reading through a null pointer or past the end of the
  array has no defined behaviour: \<open>None\<close>.
\<close>

definition screen_at :: "pstate \<Rightarrow> int \<Rightarrow> XineramaScreenInfo option" where
  "screen_at s i =
     (case screen_info (app_data s) of
        None \<Rightarrow> None
      | Some infos \<Rightarrow> if 0 \<le> i \<and> nat i < length infos then Some (infos ! nat i) else None)"

text \<open>
  The loop of lines 151 to 155, from counter \<open>i\<close> on, with the two accumulators. The
  \<open>short\<close> fields are promoted to \<open>int\<close>.
\<close>

function combined_size ::
  "pstate \<Rightarrow> c_int \<Rightarrow> int \<Rightarrow> c_int \<times> c_int \<Rightarrow> (c_int \<times> c_int) option" where
  "combined_size s number_of_screens i (combined_width, combined_height) =
     (if i < sint number_of_screens then
        (case screen_at s i of
           None \<Rightarrow> None
         | Some r \<Rightarrow>
             combined_size s number_of_screens (i + 1)
               (combined_width + scast (width r),
                combined_height +
                  (if combined_height <s scast (height r) then scast (height r) else 0)))
      else Some (combined_width, combined_height))"
  by pat_completeness auto
termination
  by (relation "measure (\<lambda>(s, n, i, acc). nat (sint n - i))") auto

text \<open>
  \<open>initialize\<close> is cut at its \<open>return\<close> statements: each part runs to the next check
  and either returns or goes on with the part after it. The result is the returned
  \<open>int\<close> with the state, or \<open>None\<close> where the behaviour is undefined.
\<close>

definition init_buffers :: "env \<Rightarrow> pstate \<Rightarrow> (c_int \<times> pstate) option" where
  "init_buffers e s0 =
     (let s1 = emit e (GL (GlGenBuffers 1)) s0;
          s2 = s1\<lparr>app_data := (app_data s1)\<lparr>vertex_buffer := r_vertex_buffer e\<rparr>\<rparr>;
          s3 = emits e [GL (GlBindBuffer GL_ARRAY_BUFFER (vertex_buffer (app_data s2))),
                        GL (GlBufferData GL_ARRAY_BUFFER Vertices GL_STATIC_DRAW),
                        GL (GlVertexPointer 3 GL_FLOAT 0),
                        GL (GlGenBuffers 1)] s2;
          s4 = s3\<lparr>app_data := (app_data s3)\<lparr>index_buffer := r_index_buffer e\<rparr>\<rparr>;
          s5 = emits e [GL (GlBindBuffer GL_ELEMENT_ARRAY_BUFFER (index_buffer (app_data s4))),
                        GL (GlBufferData GL_ELEMENT_ARRAY_BUFFER Indices GL_STATIC_DRAW),
                        GL (GlGenBuffers 1)] s4;
          s6 = s5\<lparr>app_data := (app_data s5)\<lparr>color_buffer := r_color_buffer e\<rparr>\<rparr>;
          s7 = emits e [GL (GlBindBuffer GL_ARRAY_BUFFER (color_buffer (app_data s6))),
                        GL (GlBufferData GL_ARRAY_BUFFER Colors GL_STATIC_DRAW),
                        GL (GlColorPointer 4 GL_FLOAT 0),
                        GL (GlEnable GL_DEPTH_TEST),
                        GL (GlEnable GL_MULTISAMPLE),
                        GL (GlEnableClientState GL_VERTEX_ARRAY),
                        GL (GlEnableClientState GL_COLOR_ARRAY),
                        GL GlClearColor_NORD0] s6
      in Some (0, s7))"

definition init_glew :: "env \<Rightarrow> pstate \<Rightarrow> (c_int \<times> pstate) option" where
  "init_glew e s0 =
     (let s1 = emits e [X (GlXMakeCurrent (display (app_data s0)) (window (app_data s0))
                             (glx_context (app_data s0))),
                        GL GlewInit] s0
      in if r_glew e \<noteq> GLEW_OK
         then Some (- 1, emit e (Libc (Fprintf_stderr (''Failed to initialize GLEW'' @ newline))) s1)
         else init_buffers e s1)"

definition init_context :: "env \<Rightarrow> pstate \<Rightarrow> (c_int \<times> pstate) option" where
  "init_context e s0 =
     (case visual_info (app_data s0) of
        None \<Rightarrow> None
      | Some vi \<Rightarrow>
          let s1 = emit e (X (GlXCreateContext (display (app_data s0)) vi)) s0;
              s2 = s1\<lparr>app_data := (app_data s1)\<lparr>glx_context := r_context e\<rparr>\<rparr>
          in if glx_context (app_data s2) = 0
             then Some (- 1, emit e (Libc (Fprintf_stderr
                                             (''Failed to create GLX context'' @ newline))) s2)
             else init_glew e
                    (emits e [X (XInternAtom (display (app_data s2)) ''_NET_WM_WINDOW_TYPE''),
                              X (XInternAtom (display (app_data s2))
                                   ''_NET_WM_WINDOW_TYPE_DESKTOP''),
                              X (XChangeProperty (display (app_data s2)) (window (app_data s2))
                                   (r_atom_type e) (r_atom_desktop e)),
                              X (XMapWindow (display (app_data s2)) (window (app_data s2)))] s2))"

definition init_window :: "env \<Rightarrow> c_int \<Rightarrow> c_int \<Rightarrow> pstate \<Rightarrow> (c_int \<times> pstate) option" where
  "init_window e combined_width combined_height s0 =
     (case visual_info (app_data s0) of
        None \<Rightarrow> None
      | Some vi \<Rightarrow>
          let s1 = emit e (X (XCreateWindow (display (app_data s0)) (r_root e) 0 0
                                combined_width combined_height 0 (depth vi) (visual vi)
                                (color_map (app_data s0)))) s0;
              s2 = s1\<lparr>app_data := (app_data s1)\<lparr>window := r_window e\<rparr>\<rparr>
          in if window (app_data s2) = 0
             then Some (- 1, emit e (Libc (Fprintf_stderr (''Failed to create window'' @ newline))) s2)
             else init_context e
                    (emit e (X (XStoreName (display (app_data s2)) (window (app_data s2))
                                  ''OPENGL DESKTOP'')) s2))"

definition init_colormap :: "env \<Rightarrow> c_int \<Rightarrow> c_int \<Rightarrow> pstate \<Rightarrow> (c_int \<times> pstate) option" where
  "init_colormap e combined_width combined_height s0 =
     (case visual_info (app_data s0) of
        None \<Rightarrow> None
      | Some vi \<Rightarrow>
          let s1 = emit e (X (XCreateColormap (display (app_data s0)) (r_root e) (visual vi))) s0;
              s2 = s1\<lparr>app_data := (app_data s1)\<lparr>color_map := r_colormap e\<rparr>\<rparr>
          in if color_map (app_data s2) = 0
             then Some (- 1, emit e (Libc (Fprintf_stderr
                                             (''Failed to create colormap'' @ newline))) s2)
             else init_window e combined_width combined_height s2)"

definition init_visual :: "env \<Rightarrow> c_int \<Rightarrow> c_int \<Rightarrow> pstate \<Rightarrow> (c_int \<times> pstate) option" where
  "init_visual e combined_width combined_height s0 =
     (let s1 = emit e (X (GlXChooseVisual (display (app_data s0)) 0)) s0;
          s2 = s1\<lparr>app_data := (app_data s1)\<lparr>visual_info := r_visual e\<rparr>\<rparr>
      in if visual_info (app_data s2) = None
         then Some (- 1, emit e (Libc (Fprintf_stderr
                                         (''No appropriate visual found'' @ newline))) s2)
         else init_colormap e combined_width combined_height s2)"

definition init_screens :: "env \<Rightarrow> pstate \<Rightarrow> (c_int \<times> pstate) option" where
  "init_screens e s0 =
     (let s1 = emit e (X (XineramaQueryScreens (display (app_data s0)))) s0;
          s2 = s1\<lparr>app_data := (app_data s1)\<lparr>screen_info := map_option fst (r_screens e)\<rparr>\<rparr>
      in case r_screens e of
           None \<Rightarrow>
             Some (- 1, emit e (Libc (Fprintf_stderr
                                        (''Failed to query multi-monitor information'' @ newline))) s2)
         | Some (infos, number_of_screens) \<Rightarrow>
             let s3 = s2\<lparr>app_data := (app_data s2)\<lparr>num_screens := number_of_screens\<rparr>\<rparr>
             in case combined_size s3 number_of_screens 0 (0, 0) of
                  None \<Rightarrow> None
                | Some (combined_width, combined_height) \<Rightarrow>
                    init_visual e combined_width combined_height s3)"

definition initialize :: "env \<Rightarrow> pstate \<Rightarrow> (c_int \<times> pstate) option" where
  "initialize e s0 =
     (let s1 = emit e (X XOpenDisplay) s0;
          s2 = s1\<lparr>app_data := (app_data s1)\<lparr>display := r_display e\<rparr>\<rparr>
      in if display (app_data s2) = 0
         then Some (- 1, emit e (Libc (Fprintf_stderr (''Failed to open X display'' @ newline))) s2)
         else init_screens e s2)"

subsection \<open>update\_rotation\_angles\<close>

text \<open>
  The two \<open>float\<close> objects the pointers refer to, before and after. The sum is a
  \<open>float\<close>; \<open>fmod\<close> takes and returns \<open>double\<close>, and the assignment converts back.
\<close>

definition update_rotation_angles :: "ieee \<times> ieee \<Rightarrow> ieee \<times> ieee" where
  "update_rotation_angles a =
     (f32_of_double (fmod (f32_add (fst a) (Finite (1 / 2))) (Finite 360)),
      f32_of_double (fmod (f32_add (snd a) (Finite (1 / 2))) (Finite 360)))"

subsection \<open>main\_loop\<close>

definition TARGET_FPS :: int where
  "TARGET_FPS = 60"

definition TARGET_FRAME_DURATION :: int where
  "TARGET_FRAME_DURATION = 1000000 sdiv TARGET_FPS"

text \<open>
  The calls of the body of the \<open>for\<close> loop for the region
  \<open>r = app_data->screen_info[i]\<close>, with the rotation angles \<open>ax\<close> and \<open>ay\<close>.
  The aspect ratio is the quotient of the two \<open>short\<close> fields converted to
  \<open>GLfloat\<close>, a single-precision division.
\<close>

definition aspect_ratio :: "XineramaScreenInfo \<Rightarrow> ieee" where
  "aspect_ratio r = f32_div (f32_of_short (width r)) (f32_of_short (height r))"

definition screen_calls :: "ieee \<Rightarrow> ieee \<Rightarrow> XineramaScreenInfo \<Rightarrow> call list" where
  "screen_calls ax ay r =
     [GL (GlViewport (scast (x_org r)) (scast (y_org r)) (scast (width r)) (scast (height r))),
      GL (GlMatrixMode GL_PROJECTION),
      GL GlLoadIdentity,
      GL (GluPerspective (Finite 50) (aspect_ratio r) (f64_round (1 / 10)) (Finite 10)),
      GL (GlMatrixMode GL_MODELVIEW),
      GL GlLoadIdentity,
      GL (GluLookAt (map Finite [0, 0, 5, 0, 0, 0, 0, 1, 0])),
      GL (GlRotatef ax (Finite 1) (Finite 0) (Finite 0)),
      GL (GlRotatef ay (Finite 0) (Finite 1) (Finite 0)),
      GL (GlDrawElements GL_QUADS 24 GL_UNSIGNED_BYTE)]"

definition draw_screen :: "env \<Rightarrow> XineramaScreenInfo \<Rightarrow> pstate \<Rightarrow> pstate" where
  "draw_screen e r s = emits e (screen_calls (rotation_angle_x s) (rotation_angle_y s) r) s"

function draw_screens :: "env \<Rightarrow> int \<Rightarrow> pstate \<Rightarrow> pstate option" where
  "draw_screens e i s =
     (if i < sint (num_screens (app_data s)) then
        (case screen_at s i of
           None \<Rightarrow> None
         | Some r \<Rightarrow> draw_screens e (i + 1) (draw_screen e r s))
      else Some s)"
  by pat_completeness auto

termination
proof (relation "measure (\<lambda>(e, i, s). nat (sint (num_screens (app_data s)) - i))")
  show "wf (measure (\<lambda>(e, i, s). nat (sint (num_screens (app_data s)) - i)))"
    by simp
next
  fix e :: env and i :: int and s :: pstate and r :: XineramaScreenInfo
  assume less: "i < sint (num_screens (app_data s))"
  have one: "app_data (deliver_one t g) = app_data t" for t g
    by (simp add: deliver_one_def signal_handler_def Let_def)
  have many: "app_data (foldl deliver_one t gs) = app_data t" for t gs
    by (induction gs arbitrary: t) (simp_all add: one)
  have step: "app_data (emit e c t) = app_data t" for c t
    by (simp add: emit_def deliver_def Let_def many)
  have steps: "app_data (foldl (\<lambda>s c. emit e c s) t cs) = app_data t" for t cs
    by (induction cs arbitrary: t) (simp_all add: step)
  have "app_data (draw_screen e r s) = app_data s"
    unfolding draw_screen_def emits_def by (rule steps)
  with less show "((e, i + 1, draw_screen e r s), (e, i, s))
      \<in> measure (\<lambda>(e, i, s). nat (sint (num_screens (app_data s)) - i))"
    by simp
qed

text \<open>
  The value of the \<open>int\<close> variable \<open>frame_time_elapsed\<close>: the arithmetic is done in
  \<open>long\<close> and the result converted to \<open>int\<close>.
\<close>

definition frame_time_elapsed :: "timespec \<Rightarrow> timespec \<Rightarrow> int" where
  "frame_time_elapsed start_time end_time =
     signed_take_bit 31
       (signed_take_bit 63
          (signed_take_bit 63
             (signed_take_bit 63 (sint (tv_sec end_time) - sint (tv_sec start_time)) * 1000000)
           + signed_take_bit 63 (sint (tv_nsec end_time) - sint (tv_nsec start_time)) sdiv 1000))"

text \<open>Lines 307 to 310: the calls the pacing makes, none or one \<open>usleep\<close>.\<close>

definition pacing :: "timespec \<Rightarrow> timespec \<Rightarrow> call list" where
  "pacing start_time end_time =
     (let time_to_sleep =
            signed_take_bit 31 (TARGET_FRAME_DURATION - frame_time_elapsed start_time end_time)
      in if 0 < time_to_sleep then [Libc (Usleep (word_of_int time_to_sleep))] else [])"

text \<open>\<open>clock_gettime\<close> as a step: the time read and the state after the call.\<close>

definition clock_gettime :: "env \<Rightarrow> pstate \<Rightarrow> timespec \<times> pstate" where
  "clock_gettime e s = (clock e (nsteps s), emit e (Libc Clock_gettime) s)"

text \<open>One iteration of the \<open>while\<close> loop, after its test.\<close>

definition frame :: "env \<Rightarrow> pstate \<Rightarrow> pstate option" where
  "frame e s0 =
     (let (start_time, s1) = clock_gettime e s0;
          s2 = emit e (GL (GlClear [GL_COLOR_BUFFER_BIT, GL_DEPTH_BUFFER_BIT])) s1;
          a = update_rotation_angles (rotation_angle_x s2, rotation_angle_y s2);
          s3 = s2\<lparr>rotation_angle_x := fst a, rotation_angle_y := snd a\<rparr>
      in case draw_screens e 0 s3 of
           None \<Rightarrow> None
         | Some s4 \<Rightarrow>
             (let s5 = emit e (X (GlXSwapBuffers (display (app_data s4)) (window (app_data s4)))) s4;
                  (end_time, s6) = clock_gettime e s5;
                  s7 = emits e (pacing start_time end_time) s6
              in Some (emit e (X (XFlush (display (app_data s7)))) s7)))"

text \<open>The test \<open>!terminate\<close> of the \<open>while\<close> loop: a step that reads the flag.\<close>

definition test_terminate :: "env \<Rightarrow> pstate \<Rightarrow> pstate" where
  "test_terminate e s =
     (let s1 = deliver e s
      in s1\<lparr>events := events s1 @ [Test_terminate (terminate s1)], nsteps := nsteps s1 + 1\<rparr>)"

text \<open>
  The loop runs until the flag is set, which need not happen. \<open>main_loop e n s\<close> runs at
  most \<open>n\<close> tests of the flag: \<open>Returns\<close> is the state in which the loop has exited,
  \<open>Still_running\<close> the state reached when \<open>n\<close> tests have found the flag clear.
\<close>

datatype 'a outcome = Returns 'a | Undefined | Still_running pstate

fun main_loop :: "env \<Rightarrow> nat \<Rightarrow> pstate \<Rightarrow> pstate outcome" where
  "main_loop e 0 s = Still_running s"
| "main_loop e (Suc n) s =
     (let s1 = test_terminate e s
      in if terminate s1 \<noteq> 0 then Returns s1
         else (case frame e s1 of None \<Rightarrow> Undefined | Some s2 \<Rightarrow> main_loop e n s2))"

subsection \<open>main\<close>

text \<open>The exit statuses of \<open>stdlib.h\<close>.\<close>

definition EXIT_SUCCESS :: c_int where
  "EXIT_SUCCESS = 0"

definition EXIT_FAILURE :: c_int where
  "EXIT_FAILURE = 1"

definition initial_state :: pstate where
  "initial_state =
     \<lparr>app_data = zero_app_data, terminate = 0, rotation_angle_x = Finite 0,
      rotation_angle_y = Finite 0, events = [], nsteps = 0\<rparr>"

text \<open>
  The first call of \<open>main\<close> installs the handler; no signal can reach the handler before
  it, so this step delivers none.
\<close>

definition first_step :: "call \<Rightarrow> pstate \<Rightarrow> pstate" where
  "first_step c s = s\<lparr>events := events s @ [Call c], nsteps := nsteps s + 1\<rparr>"

text \<open>\<open>exit\<close>: the last step, with the exit status of the process.\<close>

definition exit_with :: "env \<Rightarrow> c_int \<Rightarrow> pstate \<Rightarrow> (c_int \<times> pstate) outcome" where
  "exit_with e status s = Returns (status, emit e (Libc (Exit status)) s)"

text \<open>The state in which \<open>main\<close> calls \<open>initialize\<close>: both handlers are installed.\<close>

definition before_initialize :: "env \<Rightarrow> pstate" where
  "before_initialize e =
     emit e (Libc (Signal SIGTERM)) (first_step (Libc (Signal SIGINT)) initial_state)"

definition main :: "env \<Rightarrow> nat \<Rightarrow> (c_int \<times> pstate) outcome" where
  "main e n =
     (case initialize e (before_initialize e) of
        None \<Rightarrow> Undefined
      | Some (rc, s3) \<Rightarrow>
          if rc \<noteq> 0
          then exit_with e EXIT_FAILURE
                 (cleanup e (emit e (Libc (Fprintf_stderr
                                             (''Initialization failed'' @ newline))) s3))
          else (case main_loop e n s3 of
                  Returns s4 \<Rightarrow> exit_with e EXIT_SUCCESS (cleanup e s4)
                | Undefined \<Rightarrow> Undefined
                | Still_running s4 \<Rightarrow> Still_running s4))"

section \<open>Observations and sample executions\<close>

text \<open>
  The releases of the resources whose handle in the \<open>AppData\<close> is set (non-zero, or
  non-null for the two pointers to Xlib memory), in the order of \<open>cleanup\<close>.
\<close>

definition releases_of_acquired :: "AppData \<Rightarrow> call list" where
  "releases_of_acquired a =
     (if vertex_buffer a \<noteq> 0 then [GL (GlDeleteBuffers 1 (vertex_buffer a))] else []) @
     (if index_buffer a \<noteq> 0 then [GL (GlDeleteBuffers 1 (index_buffer a))] else []) @
     (if color_buffer a \<noteq> 0 then [GL (GlDeleteBuffers 1 (color_buffer a))] else []) @
     (if color_map a \<noteq> 0 then [X (XFreeColormap (display a) (color_map a))] else []) @
     (if window a \<noteq> 0 then [X (XDestroyWindow (display a) (window a))] else []) @
     (if glx_context a \<noteq> 0 then [X (GlXDestroyContext (display a) (glx_context a))] else []) @
     (case visual_info a of Some v \<Rightarrow> [X (XFree (Visual_info v))] | None \<Rightarrow> []) @
     (case screen_info a of Some i \<Rightarrow> [X (XFree (Screen_info i))] | None \<Rightarrow> []) @
     (if display a \<noteq> 0 then [X (XCloseDisplay (display a))] else [])"

text \<open>
  An environment in which every request fails, no signal arrives and the clock stands
  still; the sample environments below change some of its answers.
\<close>

definition quiet_env :: env where
  "quiet_env =
     \<lparr>r_display = 0, r_screens = None, r_root = 0, r_visual = None, r_colormap = 0,
      r_window = 0, r_context = 0, r_atom_type = 0, r_atom_desktop = 0, r_glew = 0,
      r_vertex_buffer = 0, r_index_buffer = 0, r_color_buffer = 0,
      sched = (\<lambda>t. []), clock = (\<lambda>t. \<lparr>tv_sec = 0, tv_nsec = 0\<rparr>)\<rparr>"

text \<open>The display opens, the monitor query fails.\<close>

definition display_only_env :: env where
  "display_only_env = quiet_env\<lparr>r_display := 1\<rparr>"

definition after_failed_init :: pstate where
  "after_failed_init =
     (case initialize display_only_env initial_state of
        Some (rc, s) \<Rightarrow> s
      | None \<Rightarrow> initial_state)"

text \<open>The calls made between two states of one execution.\<close>

definition new_calls :: "pstate \<Rightarrow> pstate \<Rightarrow> call list" where
  "new_calls s s' = drop (length (calls_of (events s))) (calls_of (events s'))"

text \<open>
  The answer of \<open>XineramaQueryScreens\<close> is consistent when the count it stores is the
  length of the array it returns.
\<close>

definition screens_consistent :: "env \<Rightarrow> bool" where
  "screens_consistent e =
     (case r_screens e of
        None \<Rightarrow> True
      | Some (infos, number_of_screens) \<Rightarrow> sint number_of_screens = int (length infos))"

text \<open>
  The acquisition steps of \<open>initialize\<close>, the call that attempts each, the answer that
  makes \<open>initialize\<close> give up at it, and the text it prints then.
\<close>

datatype init_step =
    Open_display | Query_monitors | Select_visual | Create_colormap | Create_window
  | Create_context | Load_extensions | Generate_buffers

fun acquisition :: "call \<Rightarrow> init_step list" where
  "acquisition (X XOpenDisplay) = [Open_display]"
| "acquisition (X (XineramaQueryScreens d)) = [Query_monitors]"
| "acquisition (X (GlXChooseVisual d n)) = [Select_visual]"
| "acquisition (X (XCreateColormap d r v)) = [Create_colormap]"
| "acquisition (X (XCreateWindow d r x y w h b dp v cm)) = [Create_window]"
| "acquisition (X (GlXCreateContext d vi)) = [Create_context]"
| "acquisition (GL GlewInit) = [Load_extensions]"
| "acquisition (GL (GlGenBuffers n)) = [Generate_buffers]"
| "acquisition c = []"

fun failed :: "env \<Rightarrow> init_step \<Rightarrow> bool" where
  "failed e Open_display = (r_display e = 0)"
| "failed e Query_monitors = (r_screens e = None)"
| "failed e Select_visual = (r_visual e = None)"
| "failed e Create_colormap = (r_colormap e = 0)"
| "failed e Create_window = (r_window e = 0)"
| "failed e Create_context = (r_context e = 0)"
| "failed e Load_extensions = (r_glew e \<noteq> GLEW_OK)"
| "failed e Generate_buffers = False"

definition checked_steps :: "init_step list" where
  "checked_steps =
     [Open_display, Query_monitors, Select_visual, Create_colormap, Create_window,
      Create_context, Load_extensions]"

definition first_failure :: "env \<Rightarrow> init_step option" where
  "first_failure e = find (failed e) checked_steps"

fun diagnostic :: "init_step \<Rightarrow> string" where
  "diagnostic Open_display = ''Failed to open X display''"
| "diagnostic Query_monitors = ''Failed to query multi-monitor information''"
| "diagnostic Select_visual = ''No appropriate visual found''"
| "diagnostic Create_colormap = ''Failed to create colormap''"
| "diagnostic Create_window = ''Failed to create window''"
| "diagnostic Create_context = ''Failed to create GLX context''"
| "diagnostic Load_extensions = ''Failed to initialize GLEW''"
| "diagnostic Generate_buffers = []"

fun is_stderr :: "call \<Rightarrow> bool" where
  "is_stderr (Libc (Fprintf_stderr m)) = True"
| "is_stderr c = False"

text \<open>The position and size of the windows requested among some calls.\<close>

fun window_request :: "call \<Rightarrow> (c_int \<times> c_int \<times> c_uint \<times> c_uint) list" where
  "window_request (X (XCreateWindow d r x y w h b dp v cm)) = [(x, y, w, h)]"
| "window_request c = []"

definition requested_windows ::
  "(c_int \<times> pstate) option \<Rightarrow> (c_int \<times> c_int \<times> c_uint \<times> c_uint) list" where
  "requested_windows res =
     (case res of
        None \<Rightarrow> []
      | Some (rc, s) \<Rightarrow> concat (map window_request (calls_of (events s))))"

text \<open>
  Every request succeeds; two monitors side by side, 1920 x 1080 at \<open>x = 0\<close> and
  1920 x 1200 at \<open>x = 1920\<close>.
\<close>

definition two_monitor_env :: env where
  "two_monitor_env =
     quiet_env
       \<lparr>r_display := 1,
        r_screens :=
          Some ([\<lparr>screen_number = 0, x_org = 0, y_org = 0, width = 1920, height = 1080\<rparr>,
                 \<lparr>screen_number = 1, x_org = 1920, y_org = 0, width = 1920, height = 1200\<rparr>], 2),
        r_root := 1,
        r_visual := Some \<lparr>visual = 1, depth = 24\<rparr>,
        r_colormap := 1, r_window := 1, r_context := 1, r_atom_type := 1, r_atom_desktop := 2,
        r_glew := 0, r_vertex_buffer := 1, r_index_buffer := 2, r_color_buffer := 3\<rparr>"

text \<open>One iteration of the size loop of \<open>initialize\<close> on the two accumulators.\<close>

definition size_step :: "c_int \<times> c_int \<Rightarrow> XineramaScreenInfo \<Rightarrow> c_int \<times> c_int" where
  "size_step acc r =
     (fst acc + scast (width r),
      snd acc + (if snd acc <s scast (height r) then scast (height r) else 0))"

text \<open>
  Every request succeeds and \<open>SIGINT\<close> arrives while \<open>main\<close> installs the second
  handler, before \<open>initialize\<close> starts.
\<close>

definition interrupted_env :: env where
  "interrupted_env = two_monitor_env\<lparr>sched := (\<lambda>t. if t = 1 then [SIGINT] else [])\<rparr>"

text \<open>
  The \<open>AppData\<close> holds the monitor regions \<open>infos\<close>: the pointer is set and the count
  is the length of the array.
\<close>

definition regions_valid :: "AppData \<Rightarrow> XineramaScreenInfo list \<Rightarrow> bool" where
  "regions_valid a infos =
     (screen_info a = Some infos \<and> sint (num_screens a) = int (length infos))"

text \<open>
  The calls of one frame for the regions \<open>infos\<close>, the updated angles \<open>ang\<close> and the
  two clock readings.
\<close>

definition frame_calls ::
  "AppData \<Rightarrow> XineramaScreenInfo list \<Rightarrow> ieee \<times> ieee \<Rightarrow> timespec \<Rightarrow> timespec \<Rightarrow> call list" where
  "frame_calls a infos ang start_time end_time =
     [Libc Clock_gettime, GL (GlClear [GL_COLOR_BUFFER_BIT, GL_DEPTH_BUFFER_BIT])]
     @ concat (map (screen_calls (fst ang) (snd ang)) infos)
     @ [X (GlXSwapBuffers (display a) (window a)), Libc Clock_gettime]
     @ pacing start_time end_time
     @ [X (XFlush (display a))]"

text \<open>The step at which a frame that starts at step \<open>t\<close> reads the clock again.\<close>

definition second_reading :: "nat \<Rightarrow> XineramaScreenInfo list \<Rightarrow> nat" where
  "second_reading t infos = t + 3 + 10 * length infos"

fun is_pass :: "call \<Rightarrow> bool" where
  "is_pass (GL (GlViewport x y w h)) = True"
| "is_pass (GL (GluPerspective fovy aspect near far)) = True"
| "is_pass (GL (GlDrawElements mode n ty)) = True"
| "is_pass c = False"

fun is_draw :: "call \<Rightarrow> bool" where
  "is_draw (GL (GlDrawElements mode n ty)) = True"
| "is_draw c = False"

fun is_usleep :: "call \<Rightarrow> bool" where
  "is_usleep (Libc (Usleep n)) = True"
| "is_usleep c = False"

text \<open>The viewport, projection and draw call the specification asks for a region.\<close>

definition pass_of :: "XineramaScreenInfo \<Rightarrow> call list" where
  "pass_of r =
     [GL (GlViewport (scast (x_org r)) (scast (y_org r)) (scast (width r)) (scast (height r))),
      GL (GluPerspective (Finite 50) (aspect_ratio r) (f64_round (1 / 10)) (Finite 10)),
      GL (GlDrawElements GL_QUADS 24 GL_UNSIGNED_BYTE)]"

text \<open>
  The elapsed time of a frame in microseconds as a number, from the two readings, and
  the readings a clock can give.
\<close>

definition elapsed_us :: "timespec \<Rightarrow> timespec \<Rightarrow> int" where
  "elapsed_us start_time end_time =
     (sint (tv_sec end_time) - sint (tv_sec start_time)) * 1000000
     + (sint (tv_nsec end_time) - sint (tv_nsec start_time)) sdiv 1000"

definition timespec_valid :: "timespec \<Rightarrow> bool" where
  "timespec_valid t = (0 \<le> sint (tv_sec t) \<and> 0 \<le> sint (tv_nsec t) \<and> sint (tv_nsec t) < 1000000000)"

text \<open>The events of the program itself, and the flag as the deliveries leave it.\<close>

fun is_delivery :: "event \<Rightarrow> bool" where
  "is_delivery (Delivered g) = True"
| "is_delivery ev = False"

fun is_test :: "event \<Rightarrow> bool" where
  "is_test (Test_terminate v) = True"
| "is_test ev = False"

definition program_steps :: "event list \<Rightarrow> event list" where
  "program_steps evs = filter (\<lambda>ev. \<not> is_delivery ev) evs"

definition terminating :: "c_int \<Rightarrow> bool" where
  "terminating g = (g = SIGINT \<or> g = SIGTERM)"

fun flag_after :: "c_int \<Rightarrow> event list \<Rightarrow> c_int" where
  "flag_after v [] = v"
| "flag_after v (Delivered g # evs) = flag_after (if terminating g then 1 else v) evs"
| "flag_after v (ev # evs) = flag_after v evs"

text \<open>The events that follow the first delivery of \<open>SIGINT\<close> or \<open>SIGTERM\<close>.\<close>

fun after_term :: "event list \<Rightarrow> event list option" where
  "after_term [] = None"
| "after_term (Delivered g # evs) = (if terminating g then Some evs else after_term evs)"
| "after_term (ev # evs) = after_term evs"

definition new_events :: "pstate \<Rightarrow> pstate \<Rightarrow> event list" where
  "new_events s s' = drop (length (events s)) (events s')"

text \<open>
  A state in which the \<open>AppData\<close> holds one monitor, 1920 x 1080 at the origin, and
  environments whose clock makes the frame that starts at step 0 last 5 milliseconds,
  and 2148 seconds.
\<close>

definition one_monitor :: XineramaScreenInfo where
  "one_monitor = \<lparr>screen_number = 0, x_org = 0, y_org = 0, width = 1920, height = 1080\<rparr>"

definition one_monitor_state :: pstate where
  "one_monitor_state =
     initial_state
       \<lparr>app_data := zero_app_data
          \<lparr>display := 1, window := 1, screen_info := Some [one_monitor], num_screens := 1\<rparr>\<rparr>"

definition five_ms_env :: env where
  "five_ms_env =
     quiet_env\<lparr>clock := (\<lambda>t. if t = 0 then \<lparr>tv_sec = 0, tv_nsec = 0\<rparr>
                             else \<lparr>tv_sec = 0, tv_nsec = 5000000\<rparr>)\<rparr>"

definition long_frame_env :: env where
  "long_frame_env =
     quiet_env\<lparr>clock := (\<lambda>t. if t = 0 then \<lparr>tv_sec = 0, tv_nsec = 0\<rparr>
                             else \<lparr>tv_sec = 2148, tv_nsec = 0\<rparr>)\<rparr>"

text \<open>The \<open>usleep\<close> calls of the frame run from a state.\<close>

definition frame_sleeps :: "env \<Rightarrow> pstate \<Rightarrow> call list" where
  "frame_sleeps e s =
     (case frame e s of None \<Rightarrow> [] | Some s' \<Rightarrow> filter is_usleep (new_calls s s'))"

fun is_query :: "call \<Rightarrow> bool" where
  "is_query (X (XineramaQueryScreens d)) = True"
| "is_query c = False"

text \<open>\<open>SIGTERM\<close> arrives in the middle of the first frame, before step 5.\<close>

definition mid_frame_env :: env where
  "mid_frame_env = quiet_env\<lparr>sched := (\<lambda>t. if t = 5 then [SIGTERM] else [])\<rparr>"

section \<open>Floating-point facts\<close>

subsection \<open>Rounding is exact on representable values\<close>

lemma exp_search_lower: "emin \<le> exp_search emin k x"
  by (induction k) simp_all

lemma exp_search_below: "exp_search emin k x = emin \<or> 2 powi (exp_search emin k x) \<le> x"
  by (induction k) simp_all

lemma round_half_even_of_int: "round_half_even (of_int z) = z"
  by (simp add: round_half_even_def)

lemma ieee_round_exact:
  assumes m: "\<bar>m\<bar> < 2 ^ p"
    and k: "emin - (int p - 1) \<le> k"
    and x: "x = of_int m * 2 powi k"
    and ub: "\<bar>x\<bar> < 2 powi (emax + 1)"
  shows "ieee_round p emin emax x = Finite x"
proof -
  define ex where "ex = exp_search emin (nat (emax - emin)) \<bar>x\<bar>"
  define q :: rat where "q = 2 powi (ex - (int p - 1))"
  have pos: "(0::rat) < 2 powi k"
    by simp
  have le: "ex - (int p - 1) \<le> k"
  proof (cases "ex = emin")
    case True
    with k show ?thesis by simp
  next
    case False
    then have "2 powi ex \<le> \<bar>x\<bar>"
      using exp_search_below [of emin "nat (emax - emin)" "\<bar>x\<bar>"] by (simp add: ex_def)
    also have "\<bar>x\<bar> = of_int \<bar>m\<bar> * 2 powi k"
      by (simp add: x abs_mult)
    also have "\<dots> < 2 ^ p * 2 powi k"
    proof -
      have "(of_int \<bar>m\<bar> :: rat) < of_int (2 ^ p)"
        using m by (simp only: of_int_less_iff)
      then show ?thesis
        using pos by simp
    qed
    also have "\<dots> = 2 powi (int p + k)"
      by (simp add: power_int_add)
    finally have "(2::rat) powi ex < 2 powi (int p + k)" .
    then have "ex < int p + k"
      using power_int_increasing [of "int p + k" ex "2::rat"] by (cases "ex < int p + k") auto
    then show ?thesis by simp
  qed
  define d where "d = nat (k - (ex - (int p - 1)))"
  have kd: "k = (ex - (int p - 1)) + int d"
    using le by (simp add: d_def)
  have "(2::rat) powi ((ex - (int p - 1)) + int d) = 2 powi (ex - (int p - 1)) * 2 powi (int d)"
    by (rule power_int_add) simp
  then have pk: "(2::rat) powi k = q * 2 ^ d"
    by (simp only: kd [symmetric] q_def power_int_of_nat)
  have xq: "x = of_int (m * 2 ^ d) * q"
    by (simp only: x pk of_int_mult of_int_power of_int_numeral) (simp only: ac_simps)
  have q0: "q \<noteq> 0"
    by (simp add: q_def)
  have quot: "x / q = of_int (m * 2 ^ d)"
    unfolding xq using q0 by simp
  have "ieee_round p emin emax x
        = (if 2 powi (emax + 1) \<le> \<bar>x\<bar> then (if 0 < x then PlusInf else MinusInf) else Finite x)"
    by (simp only: ieee_round_def Let_def ex_def [symmetric] q_def [symmetric] quot
          round_half_even_of_int xq [symmetric])
  with ub show ?thesis
    by simp
qed

lemma f32_round_half:
  assumes "m \<le> 720"
  shows "f32_round (of_nat m / 2) = Finite (of_nat m / 2)"
proof -
  have "ieee_round 24 (- 126) 127 (of_nat m / 2) = Finite (of_nat m / 2)"
  proof (rule ieee_round_exact [where m = "int m" and k = "- 1"])
    show "\<bar>int m\<bar> < 2 ^ 24" using assms by simp
    show "- 126 - (int 24 - 1) \<le> - 1" by simp
    show "(of_nat m / 2 :: rat) = of_int (int m) * 2 powi (- 1)"
      by (simp add: power_int_minus field_simps)
    have "(of_nat m / 2 :: rat) \<le> 360"
      using assms by simp
    then show "\<bar>of_nat m / 2 :: rat\<bar> < 2 powi (127 + 1)"
      by simp
  qed
  then show ?thesis by (simp add: f32_round_def)
qed

lemma half_turn_algebra: "((a::rat) * 720 + b) / 2 - a * 360 = b / 2"
  by (simp add: field_simps)

lemma fmod_half_turns:
  "fmod (Finite (of_nat n / 2)) (Finite 360) = Finite (of_nat (n mod 720) / 2)"
proof -
  have t: "trunc_rat (of_nat n / 2 / 360) = int (n div 720)"
  proof -
    have "(of_nat n / 2 / 360 :: rat) = of_nat n / of_nat 720"
      by simp
    moreover have "\<lfloor>(of_nat n / of_nat 720 :: rat)\<rfloor> = int (n div 720)"
      by (rule floor_divide_of_nat_eq)
    moreover have "0 \<le> (of_nat n / of_nat 720 :: rat)"
      by simp
    ultimately show ?thesis
      by (simp only: trunc_rat_def if_True)
  qed
  have "(of_nat n :: rat) = of_nat (n div 720 * 720 + n mod 720)"
    by (simp only: div_mult_mod_eq)
  then have r: "(of_nat n :: rat) = of_nat (n div 720) * 720 + of_nat (n mod 720)"
    by (simp only: of_nat_add of_nat_mult of_nat_numeral)
  have "(of_nat n / 2 - of_int (int (n div 720)) * 360 :: rat) = of_nat (n mod 720) / 2"
    by (subst r) (simp only: of_int_of_nat_eq half_turn_algebra)
  moreover have "fmod (Finite (of_nat n / 2)) (Finite 360)
      = Finite (of_nat n / 2 - of_int (trunc_rat (of_nat n / 2 / 360)) * 360)"
    by (simp only: fmod.simps) simp
  ultimately show ?thesis
    by (simp only: t)
qed

section \<open>Rotation angles\<close>

lemma update_angle_step:
  assumes "k < 720"
  shows "f32_of_double (fmod (f32_add (Finite (of_nat k / 2)) (Finite (1 / 2))) (Finite 360))
         = Finite (of_nat (Suc k mod 720) / 2)"
proof -
  have sum: "(of_nat k / 2 + 1 / 2 :: rat) = of_nat (Suc k) / 2"
    by (simp add: field_simps)
  have "f32_add (Finite (of_nat k / 2)) (Finite (1 / 2)) = Finite (of_nat (Suc k) / 2)"
    using assms by (simp only: f32_add.simps sum) (simp only: f32_round_half)
  moreover have "f32_round (of_nat (Suc k mod 720) / 2) = Finite (of_nat (Suc k mod 720) / 2)"
    by (rule f32_round_half) simp
  ultimately show ?thesis
    by (simp only: fmod_half_turns f32_of_double.simps)
qed

lemma rotation_iterate:
  "(update_rotation_angles ^^ n) (Finite 0, Finite 0)
   = (Finite (of_nat (n mod 720) / 2), Finite (of_nat (n mod 720) / 2))"
proof (induction n)
  case 0
  show ?case by simp
next
  case (Suc n)
  have "n mod 720 < 720" by simp
  then have "update_rotation_angles (Finite (of_nat (n mod 720) / 2), Finite (of_nat (n mod 720) / 2))
      = (Finite (of_nat (Suc (n mod 720) mod 720) / 2), Finite (of_nat (Suc (n mod 720) mod 720) / 2))"
    by (simp only: update_rotation_angles_def fst_conv snd_conv update_angle_step)
  then show ?case
    by (simp add: Suc.IH mod_Suc_eq)
qed

lemma half_turn_remainder:
  "(of_nat (n mod 720) / 2 :: rat)
     = of_nat n / 2 - 360 * of_int \<lfloor>(of_nat n / 2 :: rat) / 360\<rfloor>"
proof -
  have "(of_nat n / 2 / 360 :: rat) = of_nat n / of_nat 720"
    by simp
  then have f: "\<lfloor>(of_nat n / 2 :: rat) / 360\<rfloor> = int (n div 720)"
    by (simp only: floor_divide_of_nat_eq)
  have "(of_nat n :: rat) = of_nat (n div 720 * 720 + n mod 720)"
    by (simp only: div_mult_mod_eq)
  then have r: "(of_nat n :: rat) = of_nat (n div 720) * 720 + of_nat (n mod 720)"
    by (simp only: of_nat_add of_nat_mult of_nat_numeral)
  have "(of_nat n / 2 - of_int (int (n div 720)) * 360 :: rat) = of_nat (n mod 720) / 2"
    by (subst r) (simp only: of_int_of_nat_eq half_turn_algebra)
  then show ?thesis
    by (simp only: f mult.commute)
qed

text \<open>
  Claim C2. Starting from both angles at \<open>0.0f\<close>, \<open>n\<close> applications of
  \<open>update_rotation_angles\<close> leave in each angle the finite value \<open>(n mod 720) / 2\<close>.
  This number is the remainder of \<open>0.5 * n\<close> by \<open>360\<close>, that is \<open>0.5 * n\<close> less
  \<open>360\<close> times the integer part of \<open>0.5 * n / 360\<close>, and it lies in \<open>[0, 360)\<close>. No
  rounding occurs on the way: all the values met are multiples of one half below
  \<open>2 ^ 24\<close>.
\<close>

theorem rotation_after_n_steps:
  "(update_rotation_angles ^^ n) (Finite 0, Finite 0)
     = (Finite (of_nat (n mod 720) / 2), Finite (of_nat (n mod 720) / 2))
   \<and> (of_nat (n mod 720) / 2 :: rat)
       = of_nat n / 2 - 360 * of_int \<lfloor>(of_nat n / 2 :: rat) / 360\<rfloor>
   \<and> (0::rat) \<le> of_nat (n mod 720) / 2
   \<and> (of_nat (n mod 720) / 2 :: rat) < 360"
proof -
  have "(of_nat (n mod 720) / 2 :: rat) < 360"
  proof -
    have "n mod 720 < 720" by simp
    then have "(of_nat (n mod 720) :: rat) < of_nat 720"
      by (simp only: of_nat_less_iff)
    then show ?thesis by simp
  qed
  moreover have "(0::rat) \<le> of_nat (n mod 720) / 2"
    by simp
  ultimately show ?thesis
    by (intro conjI) (rule rotation_iterate half_turn_remainder | assumption)+
qed

section \<open>Steps of the program\<close>

lemma calls_of_append [simp]: "calls_of (xs @ ys) = calls_of xs @ calls_of ys"
  by (simp add: calls_of_def)

lemma calls_of_Nil [simp]: "calls_of [] = []"
  by (simp add: calls_of_def)

lemma calls_of_Cons [simp]:
  "calls_of (Call c # evs) = c # calls_of evs"
  "calls_of (Delivered g # evs) = calls_of evs"
  "calls_of (Test_terminate v # evs) = calls_of evs"
  by (simp_all add: calls_of_def)

lemma calls_of_Delivered [simp]: "calls_of (map Delivered gs) = []"
  by (induction gs) simp_all

lemma deliver_one_fields [simp]:
  "app_data (deliver_one s g) = app_data s"
  "rotation_angle_x (deliver_one s g) = rotation_angle_x s"
  "rotation_angle_y (deliver_one s g) = rotation_angle_y s"
  "nsteps (deliver_one s g) = nsteps s"
  "events (deliver_one s g) = events s @ [Delivered g]"
  by (simp_all add: deliver_one_def signal_handler_def Let_def)

lemma foldl_deliver_one_fields [simp]:
  "app_data (foldl deliver_one s gs) = app_data s"
  "rotation_angle_x (foldl deliver_one s gs) = rotation_angle_x s"
  "rotation_angle_y (foldl deliver_one s gs) = rotation_angle_y s"
  "nsteps (foldl deliver_one s gs) = nsteps s"
  "events (foldl deliver_one s gs) = events s @ map Delivered gs"
  by (induction gs arbitrary: s) simp_all

lemma deliver_fields [simp]:
  "app_data (deliver e s) = app_data s"
  "rotation_angle_x (deliver e s) = rotation_angle_x s"
  "rotation_angle_y (deliver e s) = rotation_angle_y s"
  "nsteps (deliver e s) = nsteps s"
  "events (deliver e s) = events s @ map Delivered (sched e (nsteps s))"
  by (simp_all add: deliver_def)

lemma emit_fields [simp]:
  "app_data (emit e c s) = app_data s"
  "rotation_angle_x (emit e c s) = rotation_angle_x s"
  "rotation_angle_y (emit e c s) = rotation_angle_y s"
  "nsteps (emit e c s) = Suc (nsteps s)"
  "events (emit e c s) = events s @ map Delivered (sched e (nsteps s)) @ [Call c]"
  "terminate (emit e c s) = terminate (deliver e s)"
  by (simp_all add: emit_def Let_def)

lemma emits_Nil [simp]: "emits e [] s = s"
  by (simp add: emits_def)

lemma emits_Cons [simp]: "emits e (c # cs) s = emits e cs (emit e c s)"
  by (simp add: emits_def)

lemma emits_append: "emits e (cs @ ds) s = emits e ds (emits e cs s)"
  by (simp add: emits_def)

lemma emits_fields [simp]:
  "app_data (emits e cs s) = app_data s"
  "rotation_angle_x (emits e cs s) = rotation_angle_x s"
  "rotation_angle_y (emits e cs s) = rotation_angle_y s"
  "nsteps (emits e cs s) = nsteps s + length cs"
  "calls_of (events (emits e cs s)) = calls_of (events s) @ cs"
  by (induction cs arbitrary: s) simp_all

lemma release_fields [simp]:
  "app_data (release e f s) = app_data s"
  "rotation_angle_x (release e f s) = rotation_angle_x s"
  "rotation_angle_y (release e f s) = rotation_angle_y s"
  "calls_of (events (release e f s)) =
     calls_of (events s) @ (case f (app_data s) of Some c \<Rightarrow> [c] | None \<Rightarrow> [])"
  by (simp_all add: release_def split: option.split)

section \<open>The signal handler\<close>

text \<open>
  Claim C8. For \<open>SIGINT\<close> and for \<open>SIGTERM\<close> alike the handler stores \<open>1\<close> in
  \<open>terminate\<close> and changes nothing else, so the two signals have the same effect.
\<close>

theorem signal_handler_sets_flag:
  "signal_handler SIGINT s = s\<lparr>terminate := 1\<rparr>
   \<and> signal_handler SIGTERM s = s\<lparr>terminate := 1\<rparr>
   \<and> signal_handler SIGINT s = signal_handler SIGTERM s"
  by (simp add: signal_handler_def)

section \<open>Teardown\<close>

lemma option_list_if:
  "(case (if b then Some c else None) of Some c \<Rightarrow> [c] | None \<Rightarrow> []) = (if b then [c] else [])"
  by simp

lemma option_list_map:
  "(case map_option f v of Some c \<Rightarrow> [c] | None \<Rightarrow> []) = (case v of Some w \<Rightarrow> [f w] | None \<Rightarrow> [])"
  by (cases v) simp_all

lemma cleanup_calls:
  "calls_of (events (cleanup e s)) = calls_of (events s) @ releases_of_acquired (app_data s)"
  by (simp add: cleanup_def Let_def releases_of_acquired_def option_list_if option_list_map
        comp_def split del: if_split cong: if_cong option.case_cong)

lemma app_data_cleanup [simp]: "app_data (cleanup e s) = app_data s"
  by (simp add: cleanup_def Let_def)

text \<open>
  Claim C10. \<open>cleanup\<close> writes to no field of the \<open>AppData\<close>: the handles it has
  released keep their values.
\<close>

theorem cleanup_keeps_app_data:
  "app_data (cleanup e s) = app_data s"
  by (rule app_data_cleanup)

lemma app_data_after_failed_init:
  "initialize display_only_env initial_state
     = Some (- 1, after_failed_init)
   \<and> app_data after_failed_init = zero_app_data\<lparr>display := 1\<rparr>"
  by (simp add: after_failed_init_def initialize_def init_screens_def display_only_env_def
        quiet_env_def initial_state_def zero_app_data_def Let_def)

text \<open>
  Claim C5 as stated fails on the context that \<open>initialize\<close> leaves when the display
  has opened and the monitor query has failed: the second \<open>cleanup\<close> closes the display
  a second time, so two calls do not have the effect of one.
\<close>

theorem cleanup_twice_counterexample:
  "calls_of (events (cleanup display_only_env (cleanup display_only_env after_failed_init)))
   \<noteq> calls_of (events (cleanup display_only_env after_failed_init))"
  by (simp add: cleanup_calls app_data_after_failed_init releases_of_acquired_def
        zero_app_data_def)

lemma releases_members:
  "(GL (GlDeleteBuffers k b) \<in> set (releases_of_acquired a))
     = (k = 1 \<and> b \<noteq> 0 \<and> (b = vertex_buffer a \<or> b = index_buffer a \<or> b = color_buffer a))"
  "(X (XFreeColormap d c) \<in> set (releases_of_acquired a))
     = (d = display a \<and> c = color_map a \<and> c \<noteq> 0)"
  "(X (XDestroyWindow d w) \<in> set (releases_of_acquired a))
     = (d = display a \<and> w = window a \<and> w \<noteq> 0)"
  "(X (GlXDestroyContext d x) \<in> set (releases_of_acquired a))
     = (d = display a \<and> x = glx_context a \<and> x \<noteq> 0)"
  "(X (XFree (Visual_info v)) \<in> set (releases_of_acquired a)) = (visual_info a = Some v)"
  "(X (XFree (Screen_info i)) \<in> set (releases_of_acquired a)) = (screen_info a = Some i)"
  "(X (XCloseDisplay d) \<in> set (releases_of_acquired a)) = (d = display a \<and> d \<noteq> 0)"
  by (auto simp: releases_of_acquired_def split: option.splits)

lemma releases_none:
  "(releases_of_acquired a = [])
     = (vertex_buffer a = 0 \<and> index_buffer a = 0 \<and> color_buffer a = 0 \<and> color_map a = 0
        \<and> window a = 0 \<and> glx_context a = 0 \<and> visual_info a = None \<and> screen_info a = None
        \<and> display a = 0)"
  by (simp add: releases_of_acquired_def split: option.split)

text \<open>
  Claim C5, amended. \<open>cleanup\<close> makes the release calls of exactly the resources whose
  handle is set, each once and in a fixed order: a buffer, the colormap, the window, the
  context and the display are released when their handle is not zero, the two Xlib
  objects when their pointer is not null. On the zero-initialized context it releases
  nothing. It leaves the handles as they are, so a second call on the same context makes
  the same release calls again: two calls have the effect of one only when no handle is
  set.
\<close>

theorem cleanup_releases_acquired:
  "calls_of (events (cleanup e s)) = calls_of (events s) @ releases_of_acquired (app_data s)
   \<and> releases_of_acquired zero_app_data = []
   \<and> app_data (cleanup e s) = app_data s
   \<and> calls_of (events (cleanup e (cleanup e s)))
       = calls_of (events s) @ releases_of_acquired (app_data s) @ releases_of_acquired (app_data s)
   \<and> (calls_of (events (cleanup e (cleanup e s))) = calls_of (events (cleanup e s)))
       = (releases_of_acquired (app_data s) = [])
   \<and> (releases_of_acquired a = [])
       = (vertex_buffer a = 0 \<and> index_buffer a = 0 \<and> color_buffer a = 0 \<and> color_map a = 0
          \<and> window a = 0 \<and> glx_context a = 0 \<and> visual_info a = None
          \<and> screen_info a = None \<and> display a = 0)
   \<and> (GL (GlDeleteBuffers k b) \<in> set (releases_of_acquired a))
       = (k = 1 \<and> b \<noteq> 0 \<and> (b = vertex_buffer a \<or> b = index_buffer a \<or> b = color_buffer a))
   \<and> (X (XFreeColormap d c) \<in> set (releases_of_acquired a))
       = (d = display a \<and> c = color_map a \<and> c \<noteq> 0)
   \<and> (X (XDestroyWindow d w) \<in> set (releases_of_acquired a))
       = (d = display a \<and> w = window a \<and> w \<noteq> 0)
   \<and> (X (GlXDestroyContext d x) \<in> set (releases_of_acquired a))
       = (d = display a \<and> x = glx_context a \<and> x \<noteq> 0)
   \<and> (X (XFree (Visual_info v)) \<in> set (releases_of_acquired a)) = (visual_info a = Some v)
   \<and> (X (XFree (Screen_info i)) \<in> set (releases_of_acquired a)) = (screen_info a = Some i)
   \<and> (X (XCloseDisplay d) \<in> set (releases_of_acquired a)) = (d = display a \<and> d \<noteq> 0)"
proof -
  have zero: "releases_of_acquired zero_app_data = []"
    by (simp add: releases_of_acquired_def zero_app_data_def)
  have twice: "calls_of (events (cleanup e (cleanup e s)))
      = calls_of (events s) @ releases_of_acquired (app_data s) @ releases_of_acquired (app_data s)"
    by (simp add: cleanup_calls)
  have same: "(calls_of (events (cleanup e (cleanup e s))) = calls_of (events (cleanup e s)))
      = (releases_of_acquired (app_data s) = [])"
    by (simp add: cleanup_calls)
  show ?thesis
    by (intro conjI)
      (rule cleanup_calls zero app_data_cleanup twice same releases_none releases_members)+
qed

section \<open>Initialization\<close>

declare combined_size.simps [simp del]
declare draw_screens.simps [simp del]

lemma size_step_pair:
  "size_step (w, h) r
   = (w + scast (width r), h + (if h <s scast (height r) then scast (height r) else 0))"
  by (simp add: size_step_def)

lemma combined_size_fold:
  assumes "screen_info (app_data s) = Some infos" and "sint n = int (length infos)" and "0 \<le> i"
  shows "combined_size s n i acc = Some (foldl size_step acc (drop (nat i) infos))"
  using assms
proof (induction s n i acc rule: combined_size.induct)
  case (1 s n i cw ch)
  show ?case
  proof (cases "i < sint n")
    case True
    with 1(2,3,4) have at: "screen_at s i = Some (infos ! nat i)"
      by (simp add: screen_at_def)
    have next_i: "0 \<le> i + 1" "nat (i + 1) = Suc (nat i)"
      using 1(4) by simp_all
    have "nat i < length infos"
      using True 1(3,4) by simp
    then have split: "drop (nat i) infos = infos ! nat i # drop (Suc (nat i)) infos"
      by (rule Cons_nth_drop_Suc [symmetric])
    from 1(1) [OF True at 1(2) 1(3) next_i(1)] show ?thesis
      by (subst combined_size.simps) (simp add: True at split next_i(2) size_step_pair)
  next
    case False
    then have "length infos \<le> nat i"
      using 1(3,4) by simp
    with False show ?thesis
      by (subst combined_size.simps) simp
  qed
qed

lemma combined_size_all:
  "screen_info (app_data s) = Some infos \<Longrightarrow> sint n = int (length infos)
   \<Longrightarrow> combined_size s n 0 (0, 0) = Some (foldl size_step (0, 0) infos)"
  using combined_size_fold [of s infos n 0 "(0, 0)"] by simp

text \<open>
  Claim C1, at two monitors of heights 1080 and 1200: the window is requested at the
  origin with width 3840, the sum of the widths, and with height 2280, the sum of the
  heights and not their maximum 1200. The second monitor is taller than the height
  accumulated so far, and the loop adds its height where it should replace the
  accumulated one.
\<close>

theorem two_monitor_window_height:
  "requested_windows (initialize two_monitor_env initial_state) = [(0, 0, 3840, 2280)]"
  by (simp add: requested_windows_def initialize_def init_screens_def init_visual_def
        init_colormap_def init_window_def init_context_def init_glew_def init_buffers_def
        two_monitor_env_def quiet_env_def combined_size_all size_step_pair word_sless_alt
        GLEW_OK_def initial_state_def Let_def)

text \<open>
  What \<open>initialize\<close> requests in general, once it gets as far as the window: the origin,
  the sum of the widths, and the height the loop accumulates.
\<close>

lemma combined_width_sum:
  "fst (foldl size_step (w, h) infos) = w + sum_list (map (\<lambda>r. scast (width r)) infos)"
  by (induction infos arbitrary: w h) (simp_all add: size_step_pair)

lemma initialize_window_request:
  assumes "r_display e \<noteq> 0" and "r_screens e = Some (infos, n)"
    and "sint n = int (length infos)" and "r_visual e = Some vi" and "r_colormap e \<noteq> 0"
    and "concat (map window_request (calls_of (events s0))) = []"
  shows "requested_windows (initialize e s0)
         = [(0, 0, sum_list (map (\<lambda>r. scast (width r)) infos),
             snd (foldl size_step (0, 0) infos))]"
proof -
  obtain w h where fold: "foldl size_step (0, 0) infos = (w, h)"
    by (cases "foldl size_step (0, 0) infos")
  from combined_width_sum [of 0 0 infos] fold
  have w: "sum_list (map (\<lambda>r. scast (width r)) infos) = w"
    by simp
  show ?thesis
    using assms
    by (simp add: requested_windows_def initialize_def init_screens_def init_visual_def
          init_colormap_def init_window_def init_context_def init_glew_def init_buffers_def
          combined_size_all fold w Let_def)
qed

lemmas init_defs =
  initialize_def init_screens_def init_visual_def init_colormap_def init_window_def
  init_context_def init_glew_def init_buffers_def

lemma first_failure_facts:
  "first_failure e = Some Open_display \<Longrightarrow> r_display e = 0"
  "first_failure e = Some Query_monitors \<Longrightarrow> r_display e \<noteq> 0 \<and> r_screens e = None"
  "first_failure e = Some Select_visual
   \<Longrightarrow> r_display e \<noteq> 0 \<and> r_screens e \<noteq> None \<and> r_visual e = None"
  "first_failure e = Some Create_colormap
   \<Longrightarrow> r_display e \<noteq> 0 \<and> r_screens e \<noteq> None \<and> r_visual e \<noteq> None \<and> r_colormap e = 0"
  "first_failure e = Some Create_window
   \<Longrightarrow> r_display e \<noteq> 0 \<and> r_screens e \<noteq> None \<and> r_visual e \<noteq> None \<and> r_colormap e \<noteq> 0
       \<and> r_window e = 0"
  "first_failure e = Some Create_context
   \<Longrightarrow> r_display e \<noteq> 0 \<and> r_screens e \<noteq> None \<and> r_visual e \<noteq> None \<and> r_colormap e \<noteq> 0
       \<and> r_window e \<noteq> 0 \<and> r_context e = 0"
  "first_failure e = Some Load_extensions
   \<Longrightarrow> r_display e \<noteq> 0 \<and> r_screens e \<noteq> None \<and> r_visual e \<noteq> None \<and> r_colormap e \<noteq> 0
       \<and> r_window e \<noteq> 0 \<and> r_context e \<noteq> 0 \<and> r_glew e \<noteq> GLEW_OK"
  "first_failure e \<noteq> Some Generate_buffers"
  "first_failure e = None
   \<Longrightarrow> r_display e \<noteq> 0 \<and> r_screens e \<noteq> None \<and> r_visual e \<noteq> None \<and> r_colormap e \<noteq> 0
       \<and> r_window e \<noteq> 0 \<and> r_context e \<noteq> 0 \<and> r_glew e = GLEW_OK"
  by (simp_all add: first_failure_def checked_steps_def split: if_splits)

lemma initialize_failure:
  assumes ok: "screens_consistent e" and st: "first_failure e = Some st"
  shows "\<exists>s'. initialize e s = Some (- 1, s')
      \<and> concat (map acquisition (new_calls s s')) = takeWhile (\<lambda>x. x \<noteq> st) checked_steps @ [st]
      \<and> filter is_stderr (new_calls s s') = [Libc (Fprintf_stderr (diagnostic st @ newline))]
      \<and> last (new_calls s s') = Libc (Fprintf_stderr (diagnostic st @ newline))"
proof (cases st)
  case Open_display
  with st have "r_display e = 0"
    by (simp add: first_failure_facts)
  then show ?thesis
    by (simp add: Open_display initialize_def new_calls_def checked_steps_def Let_def)
next
  case Query_monitors
  with st have "r_display e \<noteq> 0 \<and> r_screens e = None"
    by (simp add: first_failure_facts)
  then show ?thesis
    by (simp add: Query_monitors initialize_def init_screens_def new_calls_def checked_steps_def
          Let_def)
next
  case Select_visual
  with st have f: "r_display e \<noteq> 0 \<and> r_screens e \<noteq> None \<and> r_visual e = None"
    by (simp add: first_failure_facts)
  then obtain infos n where scr: "r_screens e = Some (infos, n)"
    by auto
  with ok have n: "sint n = int (length infos)"
    by (simp add: screens_consistent_def)
  show ?thesis
    using f n
    by (simp add: Select_visual scr init_defs combined_size_all new_calls_def checked_steps_def
          Let_def split: prod.split)
next
  case Create_colormap
  with st have f: "r_display e \<noteq> 0 \<and> r_screens e \<noteq> None \<and> r_visual e \<noteq> None \<and> r_colormap e = 0"
    by (simp add: first_failure_facts)
  then obtain infos n vi where scr: "r_screens e = Some (infos, n)" and vis: "r_visual e = Some vi"
    by auto
  with ok have n: "sint n = int (length infos)"
    by (simp add: screens_consistent_def)
  show ?thesis
    using f n
    by (simp add: Create_colormap scr vis init_defs combined_size_all new_calls_def
          checked_steps_def Let_def split: prod.split)
next
  case Create_window
  with st have f: "r_display e \<noteq> 0 \<and> r_screens e \<noteq> None \<and> r_visual e \<noteq> None \<and> r_colormap e \<noteq> 0
       \<and> r_window e = 0"
    by (simp add: first_failure_facts)
  then obtain infos n vi where scr: "r_screens e = Some (infos, n)" and vis: "r_visual e = Some vi"
    by auto
  with ok have n: "sint n = int (length infos)"
    by (simp add: screens_consistent_def)
  show ?thesis
    using f n
    by (simp add: Create_window scr vis init_defs combined_size_all new_calls_def
          checked_steps_def Let_def split: prod.split)
next
  case Create_context
  with st have f: "r_display e \<noteq> 0 \<and> r_screens e \<noteq> None \<and> r_visual e \<noteq> None \<and> r_colormap e \<noteq> 0
       \<and> r_window e \<noteq> 0 \<and> r_context e = 0"
    by (simp add: first_failure_facts)
  then obtain infos n vi where scr: "r_screens e = Some (infos, n)" and vis: "r_visual e = Some vi"
    by auto
  with ok have n: "sint n = int (length infos)"
    by (simp add: screens_consistent_def)
  show ?thesis
    using f n
    by (simp add: Create_context scr vis init_defs combined_size_all new_calls_def
          checked_steps_def Let_def split: prod.split)
next
  case Load_extensions
  with st have f: "r_display e \<noteq> 0 \<and> r_screens e \<noteq> None \<and> r_visual e \<noteq> None \<and> r_colormap e \<noteq> 0
       \<and> r_window e \<noteq> 0 \<and> r_context e \<noteq> 0 \<and> r_glew e \<noteq> GLEW_OK"
    by (simp add: first_failure_facts)
  then obtain infos n vi where scr: "r_screens e = Some (infos, n)" and vis: "r_visual e = Some vi"
    by auto
  with ok have n: "sint n = int (length infos)"
    by (simp add: screens_consistent_def)
  show ?thesis
    using f n
    by (simp add: Load_extensions scr vis init_defs combined_size_all new_calls_def
          checked_steps_def Let_def split: prod.split)
next
  case Generate_buffers
  with st show ?thesis
    by (simp add: first_failure_facts)
qed

section \<open>Failure of the initialization in main\<close>

lemma initialize_no_failure:
  assumes "first_failure e = None" and "initialize e s = Some (rc, s')"
  shows "rc = 0"
proof -
  from assms(1) have f: "r_display e \<noteq> 0 \<and> r_screens e \<noteq> None \<and> r_visual e \<noteq> None
      \<and> r_colormap e \<noteq> 0 \<and> r_window e \<noteq> 0 \<and> r_context e \<noteq> 0 \<and> r_glew e = GLEW_OK"
    by (rule first_failure_facts)
  then obtain infos n vi where scr: "r_screens e = Some (infos, n)" and vis: "r_visual e = Some vi"
    by auto
  show ?thesis
    using assms(2) f
    by (simp add: scr vis init_defs Let_def split: option.splits prod.splits)
qed

lemma main_failure:
  assumes "initialize e (before_initialize e) = Some (rc, s')" and "rc \<noteq> 0"
  shows "\<exists>s''. main e n = Returns (EXIT_FAILURE, s'')
      \<and> new_calls s' s''
          = Libc (Fprintf_stderr (''Initialization failed'' @ newline))
            # releases_of_acquired (app_data s') @ [Libc (Exit EXIT_FAILURE)]"
  using assms by (simp add: main_def exit_with_def new_calls_def cleanup_calls)

lemma main_success:
  assumes "initialize e (before_initialize e) = Some (0, s')" and "main e n = Returns (rc, s'')"
  shows "rc = EXIT_SUCCESS
      \<and> (\<exists>s4. main_loop e n s' = Returns s4
            \<and> new_calls s4 s'' = releases_of_acquired (app_data s4) @ [Libc (Exit EXIT_SUCCESS)])"
  using assms
  by (auto simp: main_def exit_with_def new_calls_def cleanup_calls split: outcome.splits)

text \<open>
  Claim C7. Let \<open>st\<close> be the first of the seven checked steps whose request fails.
  Then \<open>initialize\<close> returns \<open>-1\<close>; the acquisition calls it has made are those of the
  steps up to \<open>st\<close>, in order, and none of a later step; it has printed one message, the
  diagnostic of \<open>st\<close>, as its last call. \<open>main\<close> then prints its own message, runs
  \<open>cleanup\<close> on the \<open>AppData\<close> as \<open>initialize\<close> left it and exits with
  \<open>EXIT_FAILURE\<close>, which is not zero. When no step fails, every execution of
  \<open>main\<close> that returns has left the loop, run \<open>cleanup\<close> and exited with status 0.
\<close>

theorem initialization_failure_aborts:
  assumes "screens_consistent e"
  shows "(first_failure e = Some st \<longrightarrow>
            (\<exists>s'. initialize e s = Some (- 1, s')
               \<and> concat (map acquisition (new_calls s s'))
                   = takeWhile (\<lambda>x. x \<noteq> st) checked_steps @ [st]
               \<and> filter is_stderr (new_calls s s')
                   = [Libc (Fprintf_stderr (diagnostic st @ newline))]
               \<and> last (new_calls s s') = Libc (Fprintf_stderr (diagnostic st @ newline)))
          \<and> (\<exists>s' s''. initialize e (before_initialize e) = Some (- 1, s')
               \<and> main e n = Returns (EXIT_FAILURE, s'')
               \<and> EXIT_FAILURE \<noteq> 0
               \<and> new_calls s' s''
                   = Libc (Fprintf_stderr (''Initialization failed'' @ newline))
                     # releases_of_acquired (app_data s') @ [Libc (Exit EXIT_FAILURE)]))
       \<and> (first_failure e = None \<longrightarrow>
            (\<forall>rc s''. main e n = Returns (rc, s'') \<longrightarrow>
               rc = EXIT_SUCCESS \<and> EXIT_SUCCESS = 0
               \<and> (\<exists>s' s4. initialize e (before_initialize e) = Some (0, s')
                     \<and> main_loop e n s' = Returns s4
                     \<and> new_calls s4 s''
                         = releases_of_acquired (app_data s4) @ [Libc (Exit EXIT_SUCCESS)])))"
proof -
  have failure: "(\<exists>s'. initialize e s = Some (- 1, s')
               \<and> concat (map acquisition (new_calls s s'))
                   = takeWhile (\<lambda>x. x \<noteq> st) checked_steps @ [st]
               \<and> filter is_stderr (new_calls s s')
                   = [Libc (Fprintf_stderr (diagnostic st @ newline))]
               \<and> last (new_calls s s') = Libc (Fprintf_stderr (diagnostic st @ newline)))
          \<and> (\<exists>s' s''. initialize e (before_initialize e) = Some (- 1, s')
               \<and> main e n = Returns (EXIT_FAILURE, s'')
               \<and> EXIT_FAILURE \<noteq> 0
               \<and> new_calls s' s''
                   = Libc (Fprintf_stderr (''Initialization failed'' @ newline))
                     # releases_of_acquired (app_data s') @ [Libc (Exit EXIT_FAILURE)])"
    if st: "first_failure e = Some st"
  proof
    show "\<exists>s'. initialize e s = Some (- 1, s')
        \<and> concat (map acquisition (new_calls s s')) = takeWhile (\<lambda>x. x \<noteq> st) checked_steps @ [st]
        \<and> filter is_stderr (new_calls s s') = [Libc (Fprintf_stderr (diagnostic st @ newline))]
        \<and> last (new_calls s s') = Libc (Fprintf_stderr (diagnostic st @ newline))"
      by (rule initialize_failure [OF assms st])
    from initialize_failure [OF assms st, of "before_initialize e"]
    obtain s' where init: "initialize e (before_initialize e) = Some (- 1, s')"
      by blast
    from main_failure [OF init, of n]
    obtain s'' where "main e n = Returns (EXIT_FAILURE, s'')"
      and "new_calls s' s'' = Libc (Fprintf_stderr (''Initialization failed'' @ newline))
              # releases_of_acquired (app_data s') @ [Libc (Exit EXIT_FAILURE)]"
      by auto
    with init show "\<exists>s' s''. initialize e (before_initialize e) = Some (- 1, s')
        \<and> main e n = Returns (EXIT_FAILURE, s'')
        \<and> EXIT_FAILURE \<noteq> 0
        \<and> new_calls s' s'' = Libc (Fprintf_stderr (''Initialization failed'' @ newline))
              # releases_of_acquired (app_data s') @ [Libc (Exit EXIT_FAILURE)]"
      by (auto simp: EXIT_FAILURE_def)
  qed
  have success: "rc = EXIT_SUCCESS \<and> EXIT_SUCCESS = 0
      \<and> (\<exists>s' s4. initialize e (before_initialize e) = Some (0, s')
            \<and> main_loop e n s' = Returns s4
            \<and> new_calls s4 s'' = releases_of_acquired (app_data s4) @ [Libc (Exit EXIT_SUCCESS)])"
    if none: "first_failure e = None" and ret: "main e n = Returns (rc, s'')" for rc s''
  proof -
    from ret obtain rc0 s' where init: "initialize e (before_initialize e) = Some (rc0, s')"
      by (auto simp: main_def split: option.splits)
    with none have "rc0 = 0"
      by (rule initialize_no_failure)
    with init have init0: "initialize e (before_initialize e) = Some (0, s')"
      by simp
    from main_success [OF init0 ret] init0 show ?thesis
      by (auto simp: EXIT_SUCCESS_def)
  qed
  from failure success show ?thesis
    by blast
qed

lemma interrupted_main:
  "\<exists>s''. main interrupted_env 1 = Returns (EXIT_SUCCESS, s'')"
  by (simp add: main_def before_initialize_def first_step_def init_defs interrupted_env_def
        two_monitor_env_def quiet_env_def combined_size_all size_step_pair word_sless_alt
        GLEW_OK_def initial_state_def Let_def test_terminate_def deliver_def deliver_one_def
        signal_handler_def exit_with_def SIGINT_def)

theorem initialization_failure_aborts_witness:
  "screens_consistent display_only_env
   \<and> first_failure display_only_env = Some Query_monitors
   \<and> (\<exists>s' s''. initialize display_only_env (before_initialize display_only_env) = Some (- 1, s')
         \<and> main display_only_env 0 = Returns (EXIT_FAILURE, s'')
         \<and> new_calls s' s''
             = Libc (Fprintf_stderr (''Initialization failed'' @ newline))
               # releases_of_acquired (app_data s') @ [Libc (Exit EXIT_FAILURE)])
   \<and> screens_consistent interrupted_env
   \<and> first_failure interrupted_env = None
   \<and> (\<exists>s' s4 s''. initialize interrupted_env (before_initialize interrupted_env) = Some (0, s')
         \<and> main_loop interrupted_env 1 s' = Returns s4
         \<and> main interrupted_env 1 = Returns (EXIT_SUCCESS, s''))"
proof -
  have a: "screens_consistent display_only_env"
    by (simp add: screens_consistent_def display_only_env_def quiet_env_def)
  have b: "first_failure display_only_env = Some Query_monitors"
    by (simp add: first_failure_def checked_steps_def display_only_env_def quiet_env_def)
  have c: "screens_consistent interrupted_env"
    by (simp add: screens_consistent_def interrupted_env_def two_monitor_env_def quiet_env_def)
  have d: "first_failure interrupted_env = None"
    by (simp add: first_failure_def checked_steps_def interrupted_env_def two_monitor_env_def
          quiet_env_def GLEW_OK_def)
  from interrupted_main obtain s'' where e: "main interrupted_env 1 = Returns (EXIT_SUCCESS, s'')"
    by blast
  show ?thesis
    using a b c d e
      initialization_failure_aborts [OF a, of Query_monitors initial_state 0]
      initialization_failure_aborts [OF c, of Query_monitors initial_state 1]
    by blast
qed

section \<open>Signals between the steps\<close>

lemma deliver_one_angles:
  "deliver_one (s\<lparr>rotation_angle_x := a, rotation_angle_y := b\<rparr>) g
   = (deliver_one s g)\<lparr>rotation_angle_x := a, rotation_angle_y := b\<rparr>"
  by (simp add: deliver_one_def signal_handler_def Let_def)

lemma foldl_deliver_one_angles:
  "foldl deliver_one (s\<lparr>rotation_angle_x := a, rotation_angle_y := b\<rparr>) gs
   = (foldl deliver_one s gs)\<lparr>rotation_angle_x := a, rotation_angle_y := b\<rparr>"
  by (induction gs arbitrary: s) (simp_all add: deliver_one_angles)

lemma emit_angles:
  "emit e c (s\<lparr>rotation_angle_x := a, rotation_angle_y := b\<rparr>)
   = (emit e c s)\<lparr>rotation_angle_x := a, rotation_angle_y := b\<rparr>"
  by (simp add: emit_def deliver_def Let_def foldl_deliver_one_angles)

lemma program_steps_simps [simp]:
  "program_steps [] = []"
  "program_steps (xs @ ys) = program_steps xs @ program_steps ys"
  "program_steps (Call c # evs) = Call c # program_steps evs"
  "program_steps (Test_terminate v # evs) = Test_terminate v # program_steps evs"
  "program_steps (Delivered g # evs) = program_steps evs"
  "program_steps (map Delivered gs) = []"
  by (simp_all add: program_steps_def)

lemma flag_after_append [simp]: "flag_after v (xs @ ys) = flag_after (flag_after v xs) ys"
  by (induction v xs rule: flag_after.induct) simp_all

lemma terminate_deliver_one:
  "terminate (deliver_one s g) = (if terminating g then 1 else terminate s)"
  by (simp add: deliver_one_def signal_handler_def terminating_def Let_def)

lemma terminate_foldl_deliver_one:
  "terminate (foldl deliver_one s gs) = flag_after (terminate s) (map Delivered gs)"
  by (induction gs arbitrary: s) (simp_all add: terminate_deliver_one)

lemma terminate_deliver:
  "terminate (deliver e s) = flag_after (terminate s) (map Delivered (sched e (nsteps s)))"
  by (simp add: deliver_def terminate_foldl_deliver_one)

lemma emits_events:
  "\<exists>evs. events (emits e cs s) = events s @ evs \<and> program_steps evs = map Call cs
         \<and> terminate (emits e cs s) = flag_after (terminate s) evs"
proof (induction cs arbitrary: s)
  case Nil
  show ?case by simp
next
  case (Cons c cs)
  from Cons [of "emit e c s"] obtain evs where
    "events (emits e cs (emit e c s)) = events (emit e c s) @ evs"
    "program_steps evs = map Call cs"
    "terminate (emits e cs (emit e c s)) = flag_after (terminate (emit e c s)) evs"
    by blast
  then show ?case
    by (intro exI [of _ "map Delivered (sched e (nsteps s)) @ [Call c] @ evs"])
       (simp add: terminate_deliver)
qed

section \<open>The render loop\<close>

lemma length_screen_calls [simp]: "length (screen_calls ax ay r) = 10"
  by (simp add: screen_calls_def)

lemma length_concat_screen_calls [simp]:
  "length (concat (map (screen_calls ax ay) infos)) = 10 * length infos"
  by (induction infos) simp_all

lemma draw_screens_valid:
  assumes "regions_valid (app_data s) infos" and "0 \<le> i"
  shows "draw_screens e i s
         = Some (emits e (concat (map (screen_calls (rotation_angle_x s) (rotation_angle_y s))
                                    (drop (nat i) infos))) s)"
  using assms
proof (induction e i s rule: draw_screens.induct)
  case (1 e i s)
  show ?case
  proof (cases "i < sint (num_screens (app_data s))")
    case True
    with 1(2,3) have at: "screen_at s i = Some (infos ! nat i)"
      by (simp add: screen_at_def regions_valid_def)
    have next_i: "0 \<le> i + 1" "nat (i + 1) = Suc (nat i)"
      using 1(3) by simp_all
    have "nat i < length infos"
      using True 1(2,3) by (simp add: regions_valid_def)
    then have split: "drop (nat i) infos = infos ! nat i # drop (Suc (nat i)) infos"
      by (rule Cons_nth_drop_Suc [symmetric])
    have valid: "regions_valid (app_data (draw_screen e (infos ! nat i) s)) infos"
      using 1(2) by (simp add: draw_screen_def)
    from 1(1) [OF True at valid next_i(1)] show ?thesis
      by (subst draw_screens.simps)
         (simp add: True at split next_i(2) draw_screen_def emits_append)
  next
    case False
    then have "length infos \<le> nat i"
      using 1(2,3) by (simp add: regions_valid_def)
    with False show ?thesis
      by (subst draw_screens.simps) simp
  qed
qed

lemma emits_angles:
  "emits e cs (s\<lparr>rotation_angle_x := a, rotation_angle_y := b\<rparr>)
   = (emits e cs s)\<lparr>rotation_angle_x := a, rotation_angle_y := b\<rparr>"
  by (induction cs arbitrary: s) (simp_all add: emit_angles)

lemma draw_screens_all:
  "regions_valid (app_data s) infos
   \<Longrightarrow> draw_screens e 0 s
       = Some (emits e (concat (map (screen_calls (rotation_angle_x s) (rotation_angle_y s)) infos)) s)"
  using draw_screens_valid [of s infos 0 e] by simp

lemma second_reading_Suc:
  "second_reading t infos = Suc (Suc (Suc (t + 10 * length infos)))"
  by (simp add: second_reading_def)

lemma frame_explicit:
  assumes "regions_valid (app_data s) infos"
  shows "frame e s
         = Some ((emits e (frame_calls (app_data s) infos
                    (update_rotation_angles (rotation_angle_x s, rotation_angle_y s))
                    (clock e (nsteps s)) (clock e (second_reading (nsteps s) infos))) s)
                 \<lparr>rotation_angle_x := fst (update_rotation_angles (rotation_angle_x s, rotation_angle_y s)),
                  rotation_angle_y := snd (update_rotation_angles (rotation_angle_x s, rotation_angle_y s))\<rparr>)"
  using assms
  by (simp add: frame_def clock_gettime_def Let_def draw_screens_all [of _ infos]
        frame_calls_def second_reading_Suc emits_append emits_angles emit_angles)

section \<open>The draw passes of a frame\<close>

lemma new_calls_emits [simp]: "new_calls s (emits e cs s) = cs"
  by (simp add: new_calls_def)

lemma calls_of_map_Call [simp]: "calls_of (map Call cs) = cs"
  by (induction cs) simp_all

lemma calls_of_program_steps: "calls_of (program_steps evs) = calls_of evs"
proof (induction evs)
  case Nil
  show ?case by simp
next
  case (Cons ev evs)
  then show ?case by (cases ev) simp_all
qed

lemma frame_summary:
  fixes e :: env
  assumes "regions_valid (app_data s) infos"
    and ang: "ang = update_rotation_angles (rotation_angle_x s, rotation_angle_y s)"
    and cs: "cs = frame_calls (app_data s) infos ang (clock e (nsteps s))
                   (clock e (second_reading (nsteps s) infos))"
  shows "\<exists>s'. frame e s = Some s' \<and> app_data s' = app_data s
      \<and> (rotation_angle_x s', rotation_angle_y s') = ang
      \<and> new_calls s s' = cs
      \<and> nsteps s' = nsteps s + length cs
      \<and> (\<exists>evs. events s' = events s @ evs \<and> program_steps evs = map Call cs
              \<and> terminate s' = flag_after (terminate s) evs)"
proof -
  from emits_events [of e cs s] obtain evs where
    evs: "events (emits e cs s) = events s @ evs" "program_steps evs = map Call cs"
    "terminate (emits e cs s) = flag_after (terminate s) evs"
    by blast
  from evs(2) have "calls_of evs = cs"
    using calls_of_program_steps [of evs] by simp
  with evs show ?thesis
    unfolding frame_explicit [OF assms(1)] ang [symmetric] cs [symmetric]
    by (simp add: new_calls_def)
qed

lemma filter_pass_screen_calls [simp]: "filter is_pass (screen_calls ax ay r) = pass_of r"
  by (simp add: screen_calls_def pass_of_def)

lemma filter_pass_concat [simp]:
  "filter is_pass (concat (map (screen_calls ax ay) infos)) = concat (map pass_of infos)"
  by (induction infos) simp_all

lemma filter_draw_concat [simp]:
  "length (filter is_draw (concat (map (screen_calls ax ay) infos))) = length infos"
  by (induction infos) (simp_all add: screen_calls_def)

lemma pacing_cases: "pacing a b = [] \<or> (\<exists>n. pacing a b = [Libc (Usleep n)])"
  by (simp add: pacing_def Let_def)

lemma filter_pacing [simp]:
  "filter is_pass (pacing a b) = []" "filter is_draw (pacing a b) = []"
  "filter is_usleep (pacing a b) = pacing a b"
  using pacing_cases [of a b] by auto

lemma filter_usleep_concat [simp]:
  "filter is_usleep (concat (map (screen_calls ax ay) infos)) = []"
  by (induction infos) (simp_all add: screen_calls_def)

lemma f32_of_short_exact: "f32_of_short v = Finite (of_int (sint v))"
proof -
  have "sint v < 2 ^ (LENGTH(16) - 1)" "- (2 ^ (LENGTH(16) - 1)) \<le> sint v"
    by (rule sint_lt, rule sint_ge)
  then have range: "\<bar>sint v\<bar> < 2 ^ 24"
    by simp
  have "ieee_round 24 (- 126) 127 (of_int (sint v)) = Finite (of_int (sint v))"
  proof (rule ieee_round_exact [where m = "sint v" and k = 0])
    show "\<bar>sint v\<bar> < 2 ^ 24" by (rule range)
    show "- 126 - (int 24 - 1) \<le> 0" by simp
    show "(of_int (sint v) :: rat) = of_int (sint v) * 2 powi 0" by simp
    have "\<bar>of_int (sint v) :: rat\<bar> = of_int \<bar>sint v\<bar>"
      by simp
    also have "\<dots> < of_int (2 ^ 24)"
      using range by (simp only: of_int_less_iff)
    finally show "\<bar>of_int (sint v) :: rat\<bar> < 2 powi (127 + 1)"
      by simp
  qed
  then show ?thesis
    by (simp add: f32_of_short_def f32_round_def)
qed

lemma aspect_ratio_quotient:
  "sint (height r) \<noteq> 0
   \<Longrightarrow> aspect_ratio r = f32_round (of_int (sint (width r)) / of_int (sint (height r)))"
proof -
  assume "sint (height r) \<noteq> 0"
  then have "(of_int (sint (height r)) :: rat) \<noteq> 0"
    by (simp only: of_int_eq_0_iff not_False_eq_True)
  then show ?thesis
    by (simp only: aspect_ratio_def f32_of_short_exact f32_div.simps if_False)
qed

text \<open>
  Claim C3. A frame run with the regions \<open>infos\<close> in the \<open>AppData\<close> issues, in the order
  of the array and for each region, the viewport call with the region's rectangle, the
  projection call with the region's aspect ratio and one indexed draw call, and no other
  viewport, projection or draw call: as many draw calls as regions. The aspect ratio is
  the single-precision quotient of width by height where the height is not zero.
\<close>

theorem frame_draws_every_region:
  assumes "regions_valid (app_data s) infos"
  shows "\<exists>s'. frame e s = Some s'
      \<and> filter is_pass (new_calls s s') = concat (map pass_of infos)
      \<and> length (filter is_draw (new_calls s s')) = length infos
      \<and> (\<forall>r. sint (height r) \<noteq> 0 \<longrightarrow>
            aspect_ratio r = f32_round (of_int (sint (width r)) / of_int (sint (height r))))"
proof -
  from frame_summary [OF assms refl refl, of e] obtain s' where
    "frame e s = Some s'"
    "new_calls s s' = frame_calls (app_data s) infos
        (update_rotation_angles (rotation_angle_x s, rotation_angle_y s))
        (clock e (nsteps s)) (clock e (second_reading (nsteps s) infos))"
    by blast
  then show ?thesis
    by (simp add: frame_calls_def aspect_ratio_quotient)
qed

lemma f32_round_16_9: "f32_round (16 / 9) = Finite (14913081 / 8388608)"
  unfolding f32_round_def ieee_round_def by code_simp

theorem frame_draws_every_region_witness:
  "regions_valid (app_data one_monitor_state) [one_monitor]
   \<and> (\<exists>s'. frame quiet_env one_monitor_state = Some s'
         \<and> filter is_pass (new_calls one_monitor_state s')
             = [GL (GlViewport 0 0 1920 1080),
                GL (GluPerspective (Finite 50) (Finite (14913081 / 8388608))
                      (f64_round (1 / 10)) (Finite 10)),
                GL (GlDrawElements GL_QUADS 24 GL_UNSIGNED_BYTE)])"
proof -
  have v: "regions_valid (app_data one_monitor_state) [one_monitor]"
    by (simp add: regions_valid_def one_monitor_state_def)
  have h: "sint (height one_monitor) \<noteq> 0"
    by (simp add: one_monitor_def)
  have q: "(of_int (sint (width one_monitor)) / of_int (sint (height one_monitor)) :: rat) = 16 / 9"
    by (simp add: one_monitor_def)
  from frame_draws_every_region [OF v, of quiet_env] obtain s' where
    "frame quiet_env one_monitor_state = Some s'"
    "filter is_pass (new_calls one_monitor_state s') = concat (map pass_of [one_monitor])"
    "aspect_ratio one_monitor
       = f32_round (of_int (sint (width one_monitor)) / of_int (sint (height one_monitor)))"
    using h by blast
  then show ?thesis
    using v by (simp add: pass_of_def q one_monitor_def f32_round_16_9)
qed

section \<open>Frame pacing\<close>

lemma TARGET_FRAME_DURATION_value: "TARGET_FRAME_DURATION = 16666"
  by (simp add: TARGET_FRAME_DURATION_def TARGET_FPS_def signed_divide_int_def)

lemma sdiv_1000_bounds:
  assumes "- 1000000000 < (k::int)" and "k < 1000000000"
  shows "- 1000000 \<le> k sdiv 1000" and "k sdiv 1000 \<le> 1000000"
proof -
  have q: "k sdiv 1000 = sgn k * (\<bar>k\<bar> div 1000)"
    by (simp add: signed_divide_int_def)
  have "\<bar>k\<bar> div 1000 \<le> 1000000" "0 \<le> \<bar>k\<bar> div 1000"
    using assms by auto
  then show "- 1000000 \<le> k sdiv 1000" and "k sdiv 1000 \<le> 1000000"
    unfolding q by (cases "0 \<le> k"; simp add: sgn_if)+
qed

lemma frame_time_elapsed_exact:
  assumes "timespec_valid t0" and "timespec_valid t1"
    and "0 \<le> elapsed_us t0 t1" and "elapsed_us t0 t1 < 2 ^ 31"
  shows "frame_time_elapsed t0 t1 = elapsed_us t0 t1"
proof -
  define sd where "sd = sint (tv_sec t1) - sint (tv_sec t0)"
  define nd where "nd = sint (tv_nsec t1) - sint (tv_nsec t0)"
  have "sint (tv_sec t0) < 2 ^ (LENGTH(64) - 1)" "sint (tv_sec t1) < 2 ^ (LENGTH(64) - 1)"
    by (rule sint_lt)+
  with assms(1,2) have sd: "- (2 ^ 63) \<le> sd" "sd < 2 ^ 63"
    by (simp_all add: timespec_valid_def sd_def)
  from assms(1,2) have nd: "- 1000000000 < nd" "nd < 1000000000"
    by (simp_all add: timespec_valid_def nd_def)
  then have nd63: "- (2 ^ 63) \<le> nd" "nd < 2 ^ 63"
    by simp_all
  have q: "- 1000000 \<le> nd sdiv 1000" "nd sdiv 1000 \<le> 1000000"
    using sdiv_1000_bounds [OF nd] by simp_all
  have mu: "elapsed_us t0 t1 = sd * 1000000 + nd sdiv 1000"
    by (simp add: elapsed_us_def sd_def nd_def)
  with assms(3,4) q have prod: "- (2 ^ 63) \<le> sd * 1000000" "sd * 1000000 < 2 ^ 63"
    by simp_all
  from assms(3,4) mu have sum: "- (2 ^ 63) \<le> sd * 1000000 + nd sdiv 1000"
    "sd * 1000000 + nd sdiv 1000 < 2 ^ 63"
    "- (2 ^ 31) \<le> sd * 1000000 + nd sdiv 1000" "sd * 1000000 + nd sdiv 1000 < 2 ^ 31"
    by simp_all
  have "frame_time_elapsed t0 t1
        = signed_take_bit 31 (signed_take_bit 63
            (signed_take_bit 63 (signed_take_bit 63 sd * 1000000) + signed_take_bit 63 nd sdiv 1000))"
    by (simp only: frame_time_elapsed_def sd_def nd_def)
  also have "\<dots> = sd * 1000000 + nd sdiv 1000"
    by (simp only: signed_take_bit_int_eq_self [OF sd] signed_take_bit_int_eq_self [OF nd63]
          signed_take_bit_int_eq_self [OF prod] signed_take_bit_int_eq_self [OF sum(1,2)]
          signed_take_bit_int_eq_self [OF sum(3,4)])
  finally show ?thesis
    by (simp only: mu)
qed

lemma pacing_in_range:
  assumes "timespec_valid t0" and "timespec_valid t1"
    and "0 \<le> elapsed_us t0 t1" and "elapsed_us t0 t1 < 2 ^ 31"
  shows "pacing t0 t1
         = (if elapsed_us t0 t1 < TARGET_FRAME_DURATION
            then [Libc (Usleep (word_of_int (TARGET_FRAME_DURATION - elapsed_us t0 t1)))]
            else [])"
proof -
  have "- (2 ^ 31) \<le> 16666 - elapsed_us t0 t1" "16666 - elapsed_us t0 t1 < 2 ^ 31"
    using assms(3,4) by simp_all
  then have "signed_take_bit 31 (16666 - elapsed_us t0 t1) = 16666 - elapsed_us t0 t1"
    by (rule signed_take_bit_int_eq_self)
  then show ?thesis
    by (simp add: pacing_def Let_def frame_time_elapsed_exact [OF assms]
          TARGET_FRAME_DURATION_value)
qed

lemma filter_usleep_frame_calls [simp]:
  "filter is_usleep (frame_calls a infos ang t0 t1) = pacing t0 t1"
  by (simp add: frame_calls_def)

lemma frame_sleeps_pacing:
  assumes "regions_valid (app_data s) infos"
  shows "frame_sleeps e s = pacing (clock e (nsteps s)) (clock e (second_reading (nsteps s) infos))"
proof -
  from frame_summary [OF assms refl refl, of e] obtain s' where
    "frame e s = Some s'"
    "new_calls s s' = frame_calls (app_data s) infos
        (update_rotation_angles (rotation_angle_x s, rotation_angle_y s))
        (clock e (nsteps s)) (clock e (second_reading (nsteps s) infos))"
    by blast
  then show ?thesis
    by (simp add: frame_sleeps_def)
qed

lemma one_monitor_valid: "regions_valid (app_data one_monitor_state) [one_monitor]"
  by (simp add: regions_valid_def one_monitor_state_def)

lemma nsteps_one_monitor_state: "nsteps one_monitor_state = 0"
  by (simp add: one_monitor_state_def initial_state_def)

text \<open>
  While the elapsed time fits the \<open>int\<close> variable \<open>frame_time_elapsed\<close>, the frame does
  what the comments of the loop say: it makes all its calls; when the elapsed time is
  below the budget of \<open>1000000 / 60 = 16666\<close> microseconds it calls \<open>usleep\<close> once, with
  the budget minus the elapsed time, between the second clock reading and \<open>XFlush\<close>;
  otherwise it does not call \<open>usleep\<close>. In both cases the rotation advances by one step.
\<close>

lemma frame_pacing_in_range:
  assumes "regions_valid (app_data s) infos"
    and "t0 = clock e (nsteps s)" and "t1 = clock e (second_reading (nsteps s) infos)"
    and "timespec_valid t0" and "timespec_valid t1"
    and "0 \<le> elapsed_us t0 t1" and "elapsed_us t0 t1 < 2 ^ 31"
  shows "\<exists>s'. frame e s = Some s'
      \<and> new_calls s s'
          = frame_calls (app_data s) infos
              (update_rotation_angles (rotation_angle_x s, rotation_angle_y s)) t0 t1
      \<and> filter is_usleep (new_calls s s')
          = (if elapsed_us t0 t1 < TARGET_FRAME_DURATION
             then [Libc (Usleep (word_of_int (TARGET_FRAME_DURATION - elapsed_us t0 t1)))]
             else [])
      \<and> TARGET_FRAME_DURATION = 16666
      \<and> (rotation_angle_x s', rotation_angle_y s')
          = update_rotation_angles (rotation_angle_x s, rotation_angle_y s)"
proof -
  from frame_summary [OF assms(1) refl refl, of e] obtain s' where
    "frame e s = Some s'"
    "new_calls s s' = frame_calls (app_data s) infos
        (update_rotation_angles (rotation_angle_x s, rotation_angle_y s)) t0 t1"
    "(rotation_angle_x s', rotation_angle_y s')
        = update_rotation_angles (rotation_angle_x s, rotation_angle_y s)"
    unfolding assms(2,3) by blast
  then show ?thesis
    using pacing_in_range [OF assms(4-7)] by (simp add: TARGET_FRAME_DURATION_value)
qed

lemma frame_pacing_five_ms:
  "regions_valid (app_data one_monitor_state) [one_monitor]
   \<and> timespec_valid (clock five_ms_env 0)
   \<and> timespec_valid (clock five_ms_env (second_reading 0 [one_monitor]))
   \<and> elapsed_us (clock five_ms_env 0) (clock five_ms_env (second_reading 0 [one_monitor])) = 5000
   \<and> (\<exists>s'. frame five_ms_env one_monitor_state = Some s'
         \<and> filter is_usleep (new_calls one_monitor_state s') = [Libc (Usleep 11666)])"
proof -
  have n: "nsteps one_monitor_state = 0"
    by (rule nsteps_one_monitor_state)
  have a: "timespec_valid (clock five_ms_env 0)"
    by (simp add: five_ms_env_def quiet_env_def timespec_valid_def)
  have b: "timespec_valid (clock five_ms_env (second_reading 0 [one_monitor]))"
    by (simp add: five_ms_env_def quiet_env_def timespec_valid_def second_reading_def)
  have c: "elapsed_us (clock five_ms_env 0) (clock five_ms_env (second_reading 0 [one_monitor]))
           = 5000"
    by (simp add: five_ms_env_def quiet_env_def elapsed_us_def second_reading_def
          signed_divide_int_def)
  have d: "0 \<le> elapsed_us (clock five_ms_env 0) (clock five_ms_env (second_reading 0 [one_monitor]))"
    "elapsed_us (clock five_ms_env 0) (clock five_ms_env (second_reading 0 [one_monitor])) < 2 ^ 31"
    by (simp_all add: c)
  from frame_pacing_in_range [OF one_monitor_valid _ _ _ _ d, of five_ms_env] a b
  have "\<exists>s'. frame five_ms_env one_monitor_state = Some s'
      \<and> filter is_usleep (new_calls one_monitor_state s') = [Libc (Usleep 11666)]"
    by (simp add: n c TARGET_FRAME_DURATION_value) blast
  with one_monitor_valid a b c show ?thesis
    by blast
qed

text \<open>
  Claim C4 fails in the code for a frame that lasts 2148 seconds, the clock reading
  \<open>(0 s, 0 ns)\<close> before the frame and \<open>(2148 s, 0 ns)\<close> after the buffer swap. The
  elapsed time, 2148000000 microseconds, is above the budget of 16666 microseconds, so
  the claim asks for no sleep. The code stores the 64-bit result in the \<open>int\<close> variable
  \<open>frame_time_elapsed\<close>, which receives \<open>- 2146967296\<close>; the comparison with the budget
  then succeeds and the frame calls \<open>usleep (2146983962)\<close>.
\<close>

theorem long_frame_sleeps:
  "clock long_frame_env 0 = \<lparr>tv_sec = 0, tv_nsec = 0\<rparr>
   \<and> clock long_frame_env (second_reading 0 [one_monitor]) = \<lparr>tv_sec = 2148, tv_nsec = 0\<rparr>
   \<and> elapsed_us \<lparr>tv_sec = 0, tv_nsec = 0\<rparr> \<lparr>tv_sec = 2148, tv_nsec = 0\<rparr> = 2148000000
   \<and> TARGET_FRAME_DURATION = 16666
   \<and> frame_time_elapsed \<lparr>tv_sec = 0, tv_nsec = 0\<rparr> \<lparr>tv_sec = 2148, tv_nsec = 0\<rparr> = - 2146967296
   \<and> frame_sleeps long_frame_env one_monitor_state = [Libc (Usleep 2146983962)]"
proof -
  have "frame_sleeps long_frame_env one_monitor_state
        = pacing (clock long_frame_env 0) (clock long_frame_env (second_reading 0 [one_monitor]))"
    using frame_sleeps_pacing [OF one_monitor_valid, of long_frame_env]
    by (simp only: nsteps_one_monitor_state)
  then show ?thesis
    by (simp add: TARGET_FRAME_DURATION_value long_frame_env_def quiet_env_def
          second_reading_def elapsed_us_def pacing_def frame_time_elapsed_def Let_def
          signed_divide_int_def)
qed

section \<open>The loop and the termination flag\<close>

lemma flag_after_1 [simp]: "flag_after 1 evs = 1"
proof (induction evs)
  case Nil
  show ?case by simp
next
  case (Cons ev evs)
  then show ?case by (cases ev) simp_all
qed

lemma flag_after_nonzero: "v \<noteq> 0 \<Longrightarrow> flag_after v evs \<noteq> 0"
  by (induction v evs rule: flag_after.induct) simp_all

lemma after_term_append:
  "after_term (xs @ ys)
   = (case after_term xs of Some p \<Rightarrow> Some (p @ ys) | None \<Rightarrow> after_term ys)"
  by (induction xs rule: after_term.induct) simp_all

lemma after_term_flag: "after_term xs = Some p \<Longrightarrow> flag_after v xs = 1"
  by (induction xs arbitrary: v rule: after_term.induct) (simp_all split: if_splits)

lemma after_term_suffix: "after_term xs = Some p \<Longrightarrow> \<exists>pre. xs = pre @ p"
proof (induction xs)
  case Nil
  then show ?case by simp
next
  case (Cons ev xs)
  from Cons.prems have "after_term xs = Some p \<or> p = xs"
    by (cases ev) (auto split: if_splits)
  then show ?case
  proof
    assume "after_term xs = Some p"
    from Cons.IH [OF this] obtain pre where "xs = pre @ p"
      by blast
    then have "ev # xs = (ev # pre) @ p"
      by simp
    then show ?thesis
      by blast
  next
    assume "p = xs"
    then have "ev # xs = [ev] @ p"
      by simp
    then show ?thesis
      by blast
  qed
qed

lemma filter_test_program_steps: "filter is_test (program_steps evs) = filter is_test evs"
proof (induction evs)
  case Nil
  show ?case by simp
next
  case (Cons ev evs)
  then show ?case by (cases ev) simp_all
qed

lemma filter_test_map_Call [simp]: "filter is_test (map Call cs) = []"
  by (induction cs) simp_all

lemma filter_test_map_Delivered [simp]: "filter is_test (map Delivered gs) = []"
  by (induction gs) simp_all

lemma after_term_no_test:
  assumes "after_term xs = Some p" and "filter is_test xs = []"
  shows "filter is_test p = []"
proof -
  from after_term_suffix [OF assms(1)] obtain pre where "xs = pre @ p"
    by blast
  with assms(2) show ?thesis
    by simp
qed

lemma test_terminate_fields [simp]:
  "app_data (test_terminate e s) = app_data s"
  "rotation_angle_x (test_terminate e s) = rotation_angle_x s"
  "rotation_angle_y (test_terminate e s) = rotation_angle_y s"
  "nsteps (test_terminate e s) = Suc (nsteps s)"
  "terminate (test_terminate e s) = flag_after (terminate s) (map Delivered (sched e (nsteps s)))"
  "events (test_terminate e s)
   = events s @ map Delivered (sched e (nsteps s))
     @ [Test_terminate (flag_after (terminate s) (map Delivered (sched e (nsteps s))))]"
  by (simp_all add: test_terminate_def Let_def terminate_deliver)


lemma flag_after_scheduled:
  "g \<in> set gs \<Longrightarrow> terminating g \<Longrightarrow> flag_after v (map Delivered gs) = 1"
  by (induction gs arbitrary: v) auto

lemma terminate_emit_nonzero: "terminate s \<noteq> 0 \<Longrightarrow> terminate (emit e c s) \<noteq> 0"
  by (simp add: terminate_deliver flag_after_nonzero)

lemma terminate_emits_nonzero: "terminate s \<noteq> 0 \<Longrightarrow> terminate (emits e cs s) \<noteq> 0"
  by (induction cs arbitrary: s) (simp_all add: terminate_emit_nonzero del: emit_fields(6))

lemma terminate_emits_scheduled:
  assumes "g \<in> set (sched e t)" and "terminating g"
    and "nsteps s \<le> t" and "t < nsteps s + length cs"
  shows "terminate (emits e cs s) \<noteq> 0"
  using assms(3,4)
proof (induction cs arbitrary: s)
  case Nil
  then show ?case by simp
next
  case (Cons c cs)
  show ?case
  proof (cases "t = nsteps s")
    case True
    then have "terminate (emit e c s) = 1"
      using assms(1,2) by (simp add: terminate_deliver flag_after_scheduled)
    then have "terminate (emits e cs (emit e c s)) \<noteq> 0"
      by (intro terminate_emits_nonzero) simp
    then show ?thesis by simp
  next
    case False
    with Cons.prems have "nsteps (emit e c s) \<le> t" "t < nsteps (emit e c s) + length cs"
      by simp_all
    then have "terminate (emits e cs (emit e c s)) \<noteq> 0"
      by (rule Cons.IH)
    then show ?thesis by simp
  qed
qed

lemma length_frame_calls:
  "length (frame_calls a infos ang t0 t1) = 5 + 10 * length infos + length (pacing t0 t1)"
  by (simp add: frame_calls_def)

lemma loop_exits:
  assumes sig: "g \<in> set (sched e t)" "terminating g"
  shows "regions_valid (app_data s) infos
     \<Longrightarrow> (terminate s \<noteq> 0 \<and> 0 < n) \<or> (nsteps s \<le> t \<and> t + 2 \<le> nsteps s + n)
     \<Longrightarrow> \<exists>s'. main_loop e n s = Returns s'"
proof (induction n arbitrary: s)
  case 0
  then show ?case by auto
next
  case (Suc n)
  define s1 where "s1 = test_terminate e s"
  show ?case
  proof (cases "terminate s1 = 0")
    case False
    then show ?thesis
      by (simp add: s1_def Let_def)
  next
    case True
    have flag0: "terminate s = 0"
      using True flag_after_nonzero [of "terminate s" "map Delivered (sched e (nsteps s))"]
      by (auto simp: s1_def)
    with Suc.prems(2) have t: "nsteps s \<le> t" "t + 2 \<le> nsteps s + Suc n"
      by simp_all
    have "t \<noteq> nsteps s"
      using True sig flag_after_scheduled [of g "sched e (nsteps s)" "terminate s"]
      by (auto simp: s1_def)
    with t have t1: "nsteps s1 \<le> t"
      by (simp add: s1_def)
    have valid1: "regions_valid (app_data s1) infos"
      using Suc.prems(1) by (simp add: s1_def)
    define cs where "cs = frame_calls (app_data s1) infos
        (update_rotation_angles (rotation_angle_x s1, rotation_angle_y s1))
        (clock e (nsteps s1)) (clock e (second_reading (nsteps s1) infos))"
    from frame_summary [OF valid1 refl cs_def, of ] obtain s2 where
      s2: "frame e s1 = Some s2" "app_data s2 = app_data s1" "nsteps s2 = nsteps s1 + length cs"
      by blast
    have term2: "terminate s2 = terminate (emits e cs s1)"
      using s2(1) unfolding frame_explicit [OF valid1] cs_def [symmetric] by auto
    have valid2: "regions_valid (app_data s2) infos"
      using valid1 s2(2) by simp
    have "(terminate s2 \<noteq> 0 \<and> 0 < n) \<or> (nsteps s2 \<le> t \<and> t + 2 \<le> nsteps s2 + n)"
    proof (cases "t < nsteps s1 + length cs")
      case True
      with sig t1 have "terminate (emits e cs s1) \<noteq> 0"
        by (intro terminate_emits_scheduled [of g e t]) simp_all
      moreover have "0 < n"
        using t \<open>t \<noteq> nsteps s\<close> by simp
      ultimately show ?thesis
        by (simp add: term2)
    next
      case False
      then show ?thesis
        using t s2(3) by (simp add: s1_def)
    qed
    from Suc.IH [OF valid2 this] obtain s' where "main_loop e n s2 = Returns s'"
      by blast
    then show ?thesis
      using True s2(1) by (simp add: s1_def [symmetric] Let_def)
  qed
qed

lemma after_term_deliveries_test:
  assumes "after_term (map Delivered gs @ [Test_terminate (flag_after v (map Delivered gs))]) = Some post"
  shows "filter is_test post = [Test_terminate 1]"
proof (cases "after_term (map Delivered gs)")
  case None
  with assms show ?thesis
    by (simp add: after_term_append)
next
  case (Some p)
  then have "flag_after v (map Delivered gs) = 1" "filter is_test p = []"
    by (simp_all add: after_term_flag after_term_no_test)
  with assms Some show ?thesis
    by (auto simp: after_term_append)
qed

lemma loop_shape:
  "regions_valid (app_data s) infos \<Longrightarrow> main_loop e n s = Returns s' \<Longrightarrow>
   \<exists>evs fs. events s' = events s @ evs
      \<and> terminate s' \<noteq> 0 \<and> terminate s' = flag_after (terminate s) evs
      \<and> program_steps evs
          = concat (map (\<lambda>f. Test_terminate 0 # map Call f) fs) @ [Test_terminate (terminate s')]
      \<and> (\<forall>f\<in>set fs. \<exists>ang t0 t1. f = frame_calls (app_data s) infos ang t0 t1)
      \<and> (terminate s \<noteq> 0 \<longrightarrow> fs = [])
      \<and> (\<forall>post. after_term evs = Some post \<longrightarrow> filter is_test post = [Test_terminate 1])
      \<and> app_data s' = app_data s"
proof (induction n arbitrary: s)
  case 0
  then show ?case by simp
next
  case (Suc n)
  define ds where "ds = map Delivered (sched e (nsteps s))"
  define v0 where "v0 = flag_after (terminate s) ds"
  define s1 where "s1 = test_terminate e s"
  have s1: "events s1 = events s @ ds @ [Test_terminate v0]" "terminate s1 = v0"
    "app_data s1 = app_data s"
    by (simp_all add: s1_def ds_def v0_def)
  have pds: "program_steps ds = []"
    by (simp add: ds_def)
  show ?case
  proof (cases "v0 = 0")
    case False
    with Suc.prems(2) have s': "s' = s1"
      by (simp add: s1_def [symmetric] s1 Let_def)
    have post: "filter is_test post = [Test_terminate 1]"
      if "after_term (ds @ [Test_terminate v0]) = Some post" for post
      using that unfolding ds_def v0_def by (rule after_term_deliveries_test)
    show ?thesis
      apply (rule exI [of _ "ds @ [Test_terminate v0]"])
      apply (rule exI [of _ "[]"])
      using False post by (simp add: s' s1 v0_def [symmetric] pds)
  next
    case True
    have flag0: "terminate s = 0"
      using True flag_after_nonzero [of "terminate s" ds] by (auto simp: v0_def)
    have fds: "flag_after 0 ds = 0"
      using True flag0 by (simp add: v0_def)
    have valid1: "regions_valid (app_data s1) infos"
      using Suc.prems(1) by (simp add: s1)
    define cs where "cs = frame_calls (app_data s1) infos
        (update_rotation_angles (rotation_angle_x s1, rotation_angle_y s1))
        (clock e (nsteps s1)) (clock e (second_reading (nsteps s1) infos))"
    from frame_summary [OF valid1 refl cs_def] obtain s2 fe where
      s2: "frame e s1 = Some s2" "app_data s2 = app_data s1"
      and fe: "events s2 = events s1 @ fe" "program_steps fe = map Call cs"
        "terminate s2 = flag_after (terminate s1) fe"
      by blast
    have loop2: "main_loop e n s2 = Returns s'"
      using Suc.prems(2) True by (simp add: s1_def [symmetric] s1 s2(1) Let_def)
    have valid2: "regions_valid (app_data s2) infos"
      using valid1 s2(2) by simp
    from Suc.IH [OF valid2 loop2] obtain evs2 fs2 where
      ih: "events s' = events s2 @ evs2" "terminate s' \<noteq> 0"
        "terminate s' = flag_after (terminate s2) evs2"
        "program_steps evs2
          = concat (map (\<lambda>f. Test_terminate 0 # map Call f) fs2) @ [Test_terminate (terminate s')]"
        "\<forall>f\<in>set fs2. \<exists>ang t0 t1. f = frame_calls (app_data s2) infos ang t0 t1"
        "terminate s2 \<noteq> 0 \<longrightarrow> fs2 = []"
        "\<forall>post. after_term evs2 = Some post \<longrightarrow> filter is_test post = [Test_terminate 1]"
        "app_data s' = app_data s2"
      by blast
    have no_test: "filter is_test fe = []"
      using filter_test_program_steps [of fe] by (simp add: fe(2))
    have none_ds: "after_term ds = None"
    proof (cases "after_term ds")
      case (Some p)
      then have "flag_after (terminate s) ds = 1"
        by (rule after_term_flag)
      with True show ?thesis
        by (simp add: v0_def)
    qed simp
    have post: "filter is_test post = [Test_terminate 1]"
      if "after_term (ds @ [Test_terminate v0] @ fe @ evs2) = Some post" for post
    proof (cases "after_term fe")
      case None
      with that none_ds ih(7) show ?thesis
        by (simp add: after_term_append)
    next
      case (Some p)
      then have flag1: "flag_after (terminate s1) fe = 1" and p: "filter is_test p = []"
        using no_test by (simp_all add: after_term_flag after_term_no_test)
      then have "terminate s2 = 1"
        by (simp add: fe(3))
      with ih(3,4,6) have "program_steps evs2 = [Test_terminate 1]"
        by simp
      then have "filter is_test evs2 = [Test_terminate 1]"
        using filter_test_program_steps [of evs2] by simp
      with that none_ds Some p show ?thesis
        by (auto simp: after_term_append)
    qed
    have "\<exists>ang t0 t1. cs = frame_calls (app_data s) infos ang t0 t1"
      unfolding cs_def s1(3) by blast
    then have frames:
      "\<forall>f\<in>set (cs # fs2). \<exists>ang t0 t1. f = frame_calls (app_data s) infos ang t0 t1"
      using ih(5) by (simp add: s1(3) s2(2))
    show ?thesis
      apply (rule exI [of _ "ds @ [Test_terminate v0] @ fe @ evs2"])
      apply (rule exI [of _ "cs # fs2"])
      using frames post ih(1,2,3,4,8) flag0
      by (simp add: s1 s2(2) fe True fds pds)
  qed
qed

lemma draw_screens_general:
  "draw_screens e i s = Some s' \<Longrightarrow> \<exists>cs. s' = emits e cs s \<and> filter is_query cs = []"
proof (induction e i s rule: draw_screens.induct)
  case (1 e i s)
  show ?case
  proof (cases "i < sint (num_screens (app_data s))")
    case False
    with 1(2) have "s' = emits e [] s"
      by (subst (asm) draw_screens.simps) simp
    then show ?thesis
      by (intro exI [of _ "[]"]) simp
  next
    case True
    with 1(2) obtain r where r: "screen_at s i = Some r"
      and rest: "draw_screens e (i + 1) (draw_screen e r s) = Some s'"
      by (subst (asm) draw_screens.simps) (auto split: option.splits)
    from 1(1) [OF True r rest] obtain cs where
      "s' = emits e cs (draw_screen e r s)" "filter is_query cs = []"
      by blast
    then show ?thesis
      by (intro exI [of _ "screen_calls (rotation_angle_x s) (rotation_angle_y s) r @ cs"])
         (simp add: draw_screen_def emits_append screen_calls_def)
  qed
qed

lemma frame_general:
  assumes "frame e s = Some s'"
  shows "app_data s' = app_data s
      \<and> (\<exists>cs. calls_of (events s') = calls_of (events s) @ cs \<and> filter is_query cs = [])"
proof -
  define s3 where "s3 = (emit e (GL (GlClear [GL_COLOR_BUFFER_BIT, GL_DEPTH_BUFFER_BIT]))
        (emit e (Libc Clock_gettime) s))
      \<lparr>rotation_angle_x := fst (update_rotation_angles (rotation_angle_x s, rotation_angle_y s)),
       rotation_angle_y := snd (update_rotation_angles (rotation_angle_x s, rotation_angle_y s))\<rparr>"
  from assms obtain s4 where draw: "draw_screens e 0 s3 = Some s4"
    and s': "s' = emit e (X (XFlush (display (app_data s4))))
        (emits e (pacing (clock e (nsteps s)) (clock e (Suc (nsteps s4))))
          (emit e (Libc Clock_gettime)
            (emit e (X (GlXSwapBuffers (display (app_data s4)) (window (app_data s4)))) s4)))"
    by (auto simp: frame_def clock_gettime_def Let_def s3_def split: option.splits)
  from draw_screens_general [OF draw] obtain cs where
    cs: "s4 = emits e cs s3" "filter is_query cs = []"
    by blast
  have pace: "filter is_query (pacing a b) = []" for a b
    using pacing_cases [of a b] by auto
  show ?thesis
    using cs(2) pace by (simp add: s' cs(1) s3_def)
qed

lemma main_loop_general:
  "main_loop e n s = Returns s' \<or> main_loop e n s = Still_running s'
   \<Longrightarrow> app_data s' = app_data s
       \<and> (\<exists>cs. calls_of (events s') = calls_of (events s) @ cs \<and> filter is_query cs = [])"
proof (induction n arbitrary: s)
  case 0
  then show ?case by simp
next
  case (Suc n)
  define s1 where "s1 = test_terminate e s"
  have s1: "app_data s1 = app_data s" "calls_of (events s1) = calls_of (events s)"
    by (simp_all add: s1_def)
  show ?case
  proof (cases "terminate s1 = 0")
    case False
    with Suc.prems have "s' = s1"
      by (simp add: s1_def [symmetric] Let_def)
    with s1 show ?thesis by simp
  next
    case True
    with Suc.prems obtain s2 where s2: "frame e s1 = Some s2"
      and loop: "main_loop e n s2 = Returns s' \<or> main_loop e n s2 = Still_running s'"
      by (auto simp: s1_def [symmetric] Let_def split: option.splits)
    from frame_general [OF s2] obtain cs where
      f: "app_data s2 = app_data s1" "calls_of (events s2) = calls_of (events s1) @ cs"
        "filter is_query cs = []"
      by blast
    from Suc.IH [OF loop] obtain cs' where
      l: "app_data s' = app_data s2" "calls_of (events s') = calls_of (events s2) @ cs'"
        "filter is_query cs' = []"
      by blast
    show ?thesis
      by (intro conjI exI [of _ "cs @ cs'"]) (simp_all add: s1 f l)
  qed
qed

lemma initialize_success:
  assumes "initialize e s0 = Some (0, s)"
  shows "\<exists>infos cnt cs. r_screens e = Some (infos, cnt) \<and> screen_info (app_data s) = Some infos
      \<and> num_screens (app_data s) = cnt
      \<and> calls_of (events s) = calls_of (events s0) @ cs
      \<and> filter is_query cs = [X (XineramaQueryScreens (r_display e))]"
  using assms
  by (auto simp: init_defs Let_def split: if_splits option.splits prod.splits)

section \<open>Leaving the loop\<close>

lemma new_events_append [simp]: "events s' = events s @ evs \<Longrightarrow> new_events s s' = evs"
  by (simp add: new_events_def)

text \<open>
  Claim C6. Let the \<open>AppData\<close> hold the regions \<open>infos\<close>. In every execution of the loop
  that returns, the program's own events are blocks of one test of the flag that read 0
  followed by all the calls of one frame, and then one test that read a non-zero value,
  which is the last event: the flag is read once per frame, between frames, and the
  loop leaves only there. The events after the first delivery of \<open>SIGINT\<close> or
  \<open>SIGTERM\<close> contain exactly one test, the one that reads 1 and ends the loop: the frame
  in progress is completed and no other frame is started. And the loop does return:
  when such a signal is delivered before step \<open>t\<close>, an execution that is allowed
  \<open>n\<close> tests with \<open>t + 2 \<le> nsteps s + n\<close> returns.
\<close>

theorem loop_exits_at_frame_boundary:
  assumes "regions_valid (app_data s) infos"
  shows "(\<forall>s'. main_loop e n s = Returns s' \<longrightarrow>
            (\<exists>fs. program_steps (new_events s s')
                     = concat (map (\<lambda>f. Test_terminate 0 # map Call f) fs)
                       @ [Test_terminate (terminate s')]
                 \<and> terminate s' \<noteq> 0
                 \<and> (\<forall>f\<in>set fs. \<exists>ang t0 t1. f = frame_calls (app_data s) infos ang t0 t1)
                 \<and> (terminate s \<noteq> 0 \<longrightarrow> fs = []))
            \<and> (\<forall>post. after_term (new_events s s') = Some post
                  \<longrightarrow> filter is_test post = [Test_terminate 1]))
       \<and> (\<forall>g t. g \<in> set (sched e t) \<and> terminating g \<and> nsteps s \<le> t \<and> t + 2 \<le> nsteps s + n
            \<longrightarrow> (\<exists>s'. main_loop e n s = Returns s'))"
proof (intro conjI allI impI)
  fix s'
  assume ret: "main_loop e n s = Returns s'"
  from loop_shape [OF assms ret] obtain evs fs where
    shape: "events s' = events s @ evs" "terminate s' \<noteq> 0"
      "program_steps evs
        = concat (map (\<lambda>f. Test_terminate 0 # map Call f) fs) @ [Test_terminate (terminate s')]"
      "\<forall>f\<in>set fs. \<exists>ang t0 t1. f = frame_calls (app_data s) infos ang t0 t1"
      "terminate s \<noteq> 0 \<longrightarrow> fs = []"
      "\<forall>post. after_term evs = Some post \<longrightarrow> filter is_test post = [Test_terminate 1]"
    by blast
  have ne: "new_events s s' = evs"
    using shape(1) by (rule new_events_append)
  show "\<exists>fs. program_steps (new_events s s')
                 = concat (map (\<lambda>f. Test_terminate 0 # map Call f) fs)
                   @ [Test_terminate (terminate s')]
             \<and> terminate s' \<noteq> 0
             \<and> (\<forall>f\<in>set fs. \<exists>ang t0 t1. f = frame_calls (app_data s) infos ang t0 t1)
             \<and> (terminate s \<noteq> 0 \<longrightarrow> fs = [])"
    unfolding ne using shape(2-5) by blast
  fix post
  assume "after_term (new_events s s') = Some post"
  with shape(6) show "filter is_test post = [Test_terminate 1]"
    unfolding ne by blast
next
  fix g t
  assume "g \<in> set (sched e t) \<and> terminating g \<and> nsteps s \<le> t \<and> t + 2 \<le> nsteps s + n"
  then show "\<exists>s'. main_loop e n s = Returns s'"
    using loop_exits [of g e t s infos n] assms by blast
qed

lemma main_loop_numeral:
  "main_loop e (numeral k) s
   = (let s1 = test_terminate e s
      in if terminate s1 \<noteq> 0 then Returns s1
         else (case frame e s1 of None \<Rightarrow> Undefined
               | Some s2 \<Rightarrow> main_loop e (pred_numeral k) s2))"
  by (simp only: numeral_eq_Suc main_loop.simps)

lemma mid_frame_run:
  "\<exists>s'. main_loop mid_frame_env 7 one_monitor_state = Returns s'
       \<and> filter is_test (new_events one_monitor_state s') = [Test_terminate 0, Test_terminate 1]
       \<and> length (filter is_draw (calls_of (new_events one_monitor_state s'))) = 1
       \<and> after_term (new_events one_monitor_state s') \<noteq> None"
proof -
  have sch: "sched mid_frame_env t = (if t = 5 then [SIGTERM] else [])" for t
    by (simp add: mid_frame_env_def quiet_env_def)
  have clk: "clock mid_frame_env t = \<lparr>tv_sec = 0, tv_nsec = 0\<rparr>" for t
    by (simp add: mid_frame_env_def quiet_env_def)
  have st: "nsteps one_monitor_state = 0" "terminate one_monitor_state = 0"
    "events one_monitor_state = []"
    by (simp_all add: one_monitor_state_def initial_state_def)
  have pace: "pacing \<lparr>tv_sec = 0, tv_nsec = 0\<rparr> \<lparr>tv_sec = 0, tv_nsec = 0\<rparr> = [Libc (Usleep 16666)]"
    by (simp add: pacing_def frame_time_elapsed_def TARGET_FRAME_DURATION_value Let_def
          signed_divide_int_def)
  show ?thesis
    by (simp add: main_loop_numeral Let_def frame_explicit [of _ "[one_monitor]"] one_monitor_valid
          frame_calls_def sch clk st pace new_events_def terminate_deliver terminating_def
          SIGTERM_def SIGINT_def screen_calls_def)
qed

theorem loop_exits_at_frame_boundary_witness:
  "regions_valid (app_data one_monitor_state) [one_monitor]
   \<and> SIGTERM \<in> set (sched mid_frame_env 5) \<and> terminating SIGTERM
   \<and> nsteps one_monitor_state \<le> 5 \<and> 5 + 2 \<le> nsteps one_monitor_state + 7
   \<and> (\<exists>s' fs post. main_loop mid_frame_env 7 one_monitor_state = Returns s'
         \<and> program_steps (new_events one_monitor_state s')
             = concat (map (\<lambda>f. Test_terminate 0 # map Call f) fs)
               @ [Test_terminate (terminate s')]
         \<and> after_term (new_events one_monitor_state s') = Some post
         \<and> filter is_test post = [Test_terminate 1]
         \<and> filter is_test (new_events one_monitor_state s')
             = [Test_terminate 0, Test_terminate 1])"
proof -
  have sig: "SIGTERM \<in> set (sched mid_frame_env 5)" "terminating SIGTERM"
    by (simp_all add: mid_frame_env_def quiet_env_def terminating_def)
  have steps: "nsteps one_monitor_state \<le> 5" "5 + 2 \<le> nsteps one_monitor_state + 7"
    by (simp_all add: nsteps_one_monitor_state)
  from mid_frame_run obtain s' post where
    run: "main_loop mid_frame_env 7 one_monitor_state = Returns s'"
      "filter is_test (new_events one_monitor_state s') = [Test_terminate 0, Test_terminate 1]"
      "after_term (new_events one_monitor_state s') = Some post"
    by auto
  from loop_exits_at_frame_boundary [OF one_monitor_valid, of mid_frame_env 7] run(1,3)
  obtain fs where
    "program_steps (new_events one_monitor_state s')
       = concat (map (\<lambda>f. Test_terminate 0 # map Call f) fs) @ [Test_terminate (terminate s')]"
    "filter is_test post = [Test_terminate 1]"
    by blast
  with run sig steps one_monitor_valid show ?thesis
    by blast
qed

section \<open>The monitor regions during the loop\<close>

lemma loop_defined:
  "regions_valid (app_data s) infos
   \<Longrightarrow> \<exists>s'. main_loop e n s = Returns s' \<or> main_loop e n s = Still_running s'"
proof (induction n arbitrary: s)
  case 0
  show ?case by simp
next
  case (Suc n)
  define s1 where "s1 = test_terminate e s"
  show ?case
  proof (cases "terminate s1 = 0")
    case False
    then show ?thesis
      by (simp add: s1_def [symmetric] Let_def)
  next
    case True
    have valid1: "regions_valid (app_data s1) infos"
      using Suc.prems by (simp add: s1_def)
    from frame_summary [OF valid1 refl refl, of e] obtain s2 where
      s2: "frame e s1 = Some s2" "app_data s2 = app_data s1"
      by blast
    with valid1 have "regions_valid (app_data s2) infos"
      by simp
    from Suc.IH [OF this] show ?thesis
      using True s2(1) by (simp add: s1_def [symmetric] Let_def)
  qed
qed

lemma initialize_regions_valid:
  assumes "screens_consistent e" and "initialize e s0 = Some (0, s)"
  shows "\<exists>infos. regions_valid (app_data s) infos"
proof -
  from initialize_success [OF assms(2)] obtain infos cnt where
    "r_screens e = Some (infos, cnt)" "screen_info (app_data s) = Some infos"
    "num_screens (app_data s) = cnt"
    by blast
  with assms(1) have "regions_valid (app_data s) infos"
    by (simp add: screens_consistent_def regions_valid_def)
  then show ?thesis
    by blast
qed

text \<open>
  Claim C9. After \<open>initialize\<close> has returned 0, the region array and the count in the
  \<open>AppData\<close> are the ones \<open>XineramaQueryScreens\<close> answered, and they are the same after
  any number of iterations of the loop, whether the loop has left or is still running,
  and after \<open>cleanup\<close>. From the start of \<open>initialize\<close> on, the monitors are queried
  once.
\<close>

theorem regions_never_change:
  assumes "initialize e s0 = Some (0, s)"
    and "main_loop e n s = Returns s' \<or> main_loop e n s = Still_running s'"
  shows "(\<exists>infos cnt. r_screens e = Some (infos, cnt)
            \<and> screen_info (app_data s) = Some infos \<and> num_screens (app_data s) = cnt
            \<and> screen_info (app_data s') = Some infos \<and> num_screens (app_data s') = cnt
            \<and> screen_info (app_data (cleanup e s')) = Some infos
            \<and> num_screens (app_data (cleanup e s')) = cnt)
       \<and> app_data s' = app_data s
       \<and> filter is_query (new_calls s0 s') = [X (XineramaQueryScreens (r_display e))]"
proof -
  from initialize_success [OF assms(1)] obtain infos cnt cs where
    init: "r_screens e = Some (infos, cnt)" "screen_info (app_data s) = Some infos"
      "num_screens (app_data s) = cnt" "calls_of (events s) = calls_of (events s0) @ cs"
      "filter is_query cs = [X (XineramaQueryScreens (r_display e))]"
    by blast
  from main_loop_general [OF assms(2)] obtain cs' where
    loop: "app_data s' = app_data s" "calls_of (events s') = calls_of (events s) @ cs'"
      "filter is_query cs' = []"
    by blast
  have "new_calls s0 s' = cs @ cs'"
    by (simp add: new_calls_def init(4) loop(2))
  with init loop show ?thesis
    by simp
qed

lemma two_monitor_init:
  "\<exists>s. initialize two_monitor_env (before_initialize two_monitor_env) = Some (0, s)"
  by (simp add: before_initialize_def first_step_def init_defs two_monitor_env_def
        quiet_env_def combined_size_all GLEW_OK_def initial_state_def Let_def split: prod.split)

theorem regions_never_change_witness:
  "\<exists>s s'. initialize two_monitor_env (before_initialize two_monitor_env) = Some (0, s)
     \<and> (main_loop two_monitor_env 3 s = Returns s' \<or> main_loop two_monitor_env 3 s = Still_running s')
     \<and> screen_info (app_data s')
         = Some [\<lparr>screen_number = 0, x_org = 0, y_org = 0, width = 1920, height = 1080\<rparr>,
                 \<lparr>screen_number = 1, x_org = 1920, y_org = 0, width = 1920, height = 1200\<rparr>]
     \<and> num_screens (app_data s') = 2
     \<and> filter is_query (new_calls (before_initialize two_monitor_env) s')
         = [X (XineramaQueryScreens 1)]"
proof -
  from two_monitor_init obtain s where
    init: "initialize two_monitor_env (before_initialize two_monitor_env) = Some (0, s)"
    by blast
  have scr: "r_screens two_monitor_env
      = Some ([\<lparr>screen_number = 0, x_org = 0, y_org = 0, width = 1920, height = 1080\<rparr>,
               \<lparr>screen_number = 1, x_org = 1920, y_org = 0, width = 1920, height = 1200\<rparr>], 2)"
    "r_display two_monitor_env = 1"
    by (simp_all add: two_monitor_env_def quiet_env_def)
  from initialize_success [OF init] scr(1) have
    "regions_valid (app_data s)
       [\<lparr>screen_number = 0, x_org = 0, y_org = 0, width = 1920, height = 1080\<rparr>,
        \<lparr>screen_number = 1, x_org = 1920, y_org = 0, width = 1920, height = 1200\<rparr>]"
    by (auto simp: regions_valid_def)
  from loop_defined [OF this, of two_monitor_env 3] obtain s' where
    loop: "main_loop two_monitor_env 3 s = Returns s' \<or> main_loop two_monitor_env 3 s = Still_running s'"
    by blast
  from regions_never_change [OF init loop] scr init loop show ?thesis
    by auto
qed

end
